theory Spec2Isabelle
  imports Main "HOL-Library.Word"
begin

unbundle bit_operations_syntax

section \<open>The getheaders and getblocks messages of \<^verbatim>\<open>protos/msggetheaders.go\<close>\<close>

text \<open>
  The file under study holds two message types, \<^verbatim>\<open>MsgGetHeaders\<close> and
  \<^verbatim>\<open>MsgGetBlocks\<close>, each with \<^verbatim>\<open>AddBlockLocatorHash\<close>, \<^verbatim>\<open>VVSDecode\<close>,
  \<^verbatim>\<open>VVSEncode\<close>, \<^verbatim>\<open>MaxPayloadLength\<close> and a constructor. Both are embedded
  here, each from its own source text. The stream primitives of package
  \<^verbatim>\<open>serialization\<close>, the constants of package \<^verbatim>\<open>common\<close> and \<^verbatim>\<open>messageError\<close>
  are not part of the file; they are modelled from the specification and marked so.
\<close>

subsection \<open>Bytes, hashes, errors\<close>

type_synonym byte = "8 word"
type_synonym uint16 = "16 word"
type_synonym uint32 = "32 word"
type_synonym uint64 = "64 word"

text \<open>Modelled from the spec: \<^verbatim>\<open>common.HashLength\<close>, whose declaration is missing
  ("Hash values are exactly 32 bytes").\<close>

definition HashLength :: nat where
  "HashLength = 32"

text \<open>\<^verbatim>\<open>common.Hash\<close> is the Go array type \<^verbatim>\<open>[HashLength]byte\<close>: a value of it always
  holds exactly 32 bytes, which the type below enforces.\<close>

typedef Hash = "{bs :: byte list. length bs = 32}"
  by (rule exI [of _ "replicate 32 0"]) simp

text \<open>\<^verbatim>\<open>hash[:]\<close>, the bytes of a hash, is \<open>Rep_Hash\<close>. Storing 32 bytes into a hash is
  \<open>to_Hash\<close>; it is only ever applied to lists of 32 bytes (shorter input would be
  padded with zeros and longer input cut, to keep the function total).\<close>

definition to_Hash :: "byte list \<Rightarrow> Hash" where
  "to_Hash bs = Abs_Hash (take 32 (bs @ replicate 32 0))"

definition zero_Hash :: Hash where
  "zero_Hash = to_Hash []"

text \<open>The values an \<^verbatim>\<open>error\<close> result can take in this file: the two stream errors of
  \<^verbatim>\<open>io.ReadFull\<close>, the short write of a writer that is full, the \<^verbatim>\<open>MessageError\<close>
  (function name and description) that \<^verbatim>\<open>messageError\<close> builds, and a run-time
  panic, kept as a value so that a panicking path is a branch of the model.\<close>

datatype error =
    EOF
  | ErrUnexpectedEOF
  | ErrShortWrite
  | MessageError string string
  | Panic string

text \<open>Modelled from the spec: \<^verbatim>\<open>messageError\<close>, defined elsewhere in package
  \<^verbatim>\<open>protos\<close> (a protocol violation "reported with the offending variant's command
  name and a human-readable description").\<close>

definition messageError :: "string \<Rightarrow> string \<Rightarrow> error" where
  "messageError f desc = MessageError f desc"

text \<open>The spec's two error kinds.\<close>

fun ProtocolViolation :: "error \<Rightarrow> bool" where
  "ProtocolViolation (MessageError f desc) = True"
| "ProtocolViolation e = False"

fun StreamFailure :: "error \<Rightarrow> bool" where
  "StreamFailure EOF = True"
| "StreamFailure ErrUnexpectedEOF = True"
| "StreamFailure ErrShortWrite = True"
| "StreamFailure e = False"

text \<open>\<^verbatim>\<open>fmt.Sprintf("%v", n)\<close> on an unsigned integer: its decimal digits.\<close>

fun decimal :: "nat \<Rightarrow> string" where
  "decimal n =
     (if n < 10 then [''0123456789'' ! n]
      else decimal (n div 10) @ [''0123456789'' ! (n mod 10)])"

declare decimal.simps [simp del]

subsection \<open>Streams\<close>

text \<open>An \<^verbatim>\<open>io.Reader\<close> is modelled by the bytes it has not yet delivered, as a
  \<^verbatim>\<open>bytes.Reader\<close> over a received payload behaves. \<^verbatim>\<open>io.ReadFull\<close> into a buffer
  of \<open>n\<close> bytes returns the bytes it could read and what is left of the stream; it
  reports \<^verbatim>\<open>io.EOF\<close> when nothing was read and \<^verbatim>\<open>io.ErrUnexpectedEOF\<close> when the
  stream ended early.\<close>

type_synonym reader = "byte list"

definition ReadFull :: "reader \<Rightarrow> nat \<Rightarrow> error option \<times> byte list \<times> reader" where
  "ReadFull r n =
     (if n \<le> length r then (None, take n r, drop n r)
      else (Some (if r = [] then EOF else ErrUnexpectedEOF), r, []))"

text \<open>An \<^verbatim>\<open>io.Writer\<close> is modelled by the bytes written so far and the room left
  (\<open>None\<close>: a growing buffer that never refuses). A writer without room for the whole
  slice takes what fits and reports \<^verbatim>\<open>io.ErrShortWrite\<close>.\<close>

record writer =
  written :: "byte list"
  room :: "nat option"

definition Write :: "writer \<Rightarrow> byte list \<Rightarrow> error option \<times> writer" where
  "Write w p =
     (case room w of
        None \<Rightarrow> (None, w\<lparr>written := written w @ p\<rparr>)
      | Some n \<Rightarrow>
          if length p \<le> n
          then (None, w\<lparr>written := written w @ p, room := Some (n - length p)\<rparr>)
          else (Some ErrShortWrite, w\<lparr>written := written w @ take n p, room := Some 0\<rparr>))"

definition Buffer :: writer where
  "Buffer = \<lparr>written = [], room = None\<rparr>"

subsection \<open>Package \<^verbatim>\<open>serialization\<close>\<close>

text \<open>Little-endian byte order: the least significant byte first.\<close>

fun LittleEndian_bytes :: "nat \<Rightarrow> 'a::len word \<Rightarrow> byte list" where
  "LittleEndian_bytes 0 v = []"
| "LittleEndian_bytes (Suc k) v = ucast v # LittleEndian_bytes k (drop_bit 8 v)"

fun LittleEndian_value :: "byte list \<Rightarrow> 'a::len word" where
  "LittleEndian_value [] = 0"
| "LittleEndian_value (b # bs) = ucast b OR push_bit 8 (LittleEndian_value bs)"

text \<open>Modelled from the spec: \<^verbatim>\<open>serialization.WriteUint32\<close> and
  \<^verbatim>\<open>serialization.ReadUint32\<close>, missing from the sources ("Write
  \<^verbatim>\<open>protocolVersion\<close> as a 4-byte little-endian unsigned integer", "Read 4 bytes
  little-endian"). A failed read leaves the target untouched.\<close>

definition WriteUint32 :: "writer \<Rightarrow> uint32 \<Rightarrow> error option \<times> writer" where
  "WriteUint32 w v = Write w (LittleEndian_bytes 4 v)"

definition ReadUint32 :: "reader \<Rightarrow> (error + uint32) \<times> reader" where
  "ReadUint32 r =
     (case ReadFull r 4 of
        (Some e, bs, r') \<Rightarrow> (Inl e, r')
      | (None, bs, r') \<Rightarrow> (Inr (LittleEndian_value bs), r'))"

text \<open>Modelled from the spec: \<^verbatim>\<open>serialization.WriteVarInt\<close>, missing from the
  sources. The CompactSize encoding: "values \<^verbatim>\<open>< 0xfd\<close> encode as one byte equal to
  the value; values in \<^verbatim>\<open>[0xfd, 0xffff]\<close> encode as byte \<^verbatim>\<open>0xfd\<close> followed by a 2-byte
  little-endian value; values in \<^verbatim>\<open>[0x10000, 0xffffffff]\<close> encode as byte \<^verbatim>\<open>0xfe\<close>
  followed by a 4-byte little-endian value; larger values encode as byte \<^verbatim>\<open>0xff\<close>
  followed by an 8-byte little-endian value". The protocol version is not consulted.\<close>

definition VarInt_bytes :: "uint64 \<Rightarrow> byte list" where
  "VarInt_bytes val =
     (if val < 0xfd then [ucast val]
      else if val \<le> 0xffff then 0xfd # LittleEndian_bytes 2 (ucast val :: uint16)
      else if val \<le> 0xffffffff then 0xfe # LittleEndian_bytes 4 (ucast val :: uint32)
      else 0xff # LittleEndian_bytes 8 val)"

definition WriteVarInt :: "writer \<Rightarrow> uint32 \<Rightarrow> uint64 \<Rightarrow> error option \<times> writer" where
  "WriteVarInt w pver val = Write w (VarInt_bytes val)"

text \<open>Modelled from the spec: \<^verbatim>\<open>serialization.ReadVarInt\<close>, missing from the
  sources ("Read the CompactSize count using the inverse of the encoding above"): one
  discriminant byte, then 2, 4 or 8 little-endian bytes when the discriminant is
  \<^verbatim>\<open>0xfd\<close>, \<^verbatim>\<open>0xfe\<close> or \<^verbatim>\<open>0xff\<close>. The spec states no further check on the value
  read, so none is modelled.\<close>

definition ReadVarInt :: "reader \<Rightarrow> uint32 \<Rightarrow> (error + uint64) \<times> reader" where
  "ReadVarInt r pver =
     (case ReadFull r 1 of
        (Some e, bs, r') \<Rightarrow> (Inl e, r')
      | (None, bs, r') \<Rightarrow>
          (let discriminant = (LittleEndian_value bs :: byte);
               n = (if discriminant = 0xff then 8 else if discriminant = 0xfe then 4
                    else if discriminant = 0xfd then 2 else 0)
           in if n = 0 then (Inr (ucast discriminant), r')
              else (case ReadFull r' n of
                      (Some e, bs', r'') \<Rightarrow> (Inl e, r'')
                    | (None, bs', r'') \<Rightarrow>
                        (Inr (if n = 8 then LittleEndian_value bs'
                              else if n = 4 then ucast (LittleEndian_value bs' :: uint32)
                              else ucast (LittleEndian_value bs' :: uint16)), r''))))"

text \<open>Modelled from the spec: \<^verbatim>\<open>serialization.WriteNBytes\<close> and
  \<^verbatim>\<open>serialization.ReadNBytes\<close>, missing from the sources ("Write each of the 32-byte
  locator hashes", "read exactly 32 bytes", "Any underlying read failure (including
  short reads) propagates as an I/O error"). \<open>ReadNBytes r dst n\<close> fills the first
  \<open>n\<close> bytes of the slice \<open>dst\<close>; after a short read the bytes that did arrive are in
  \<open>dst\<close>, as \<^verbatim>\<open>io.ReadFull\<close> leaves them. It is only called with \<open>n = length dst\<close>.\<close>

definition WriteNBytes :: "writer \<Rightarrow> byte list \<Rightarrow> error option \<times> writer" where
  "WriteNBytes w bytes = Write w bytes"

definition ReadNBytes :: "reader \<Rightarrow> byte list \<Rightarrow> nat \<Rightarrow> error option \<times> byte list \<times> reader" where
  "ReadNBytes r dst n =
     (case ReadFull r n of
        (e, bs, r') \<Rightarrow> (e, bs @ drop (length bs) dst, r'))"


subsection \<open>The outcome of a decoding\<close>

text \<open>What a call of \<^verbatim>\<open>VVSDecode\<close> leaves behind: the error returned, the receiver
  (decoding is in place, so the caller sees the receiver whatever the error), the unread
  rest of the stream, and the lengths passed to \<^verbatim>\<open>make\<close>, in order.\<close>

record 'm decoded =
  err :: "error option"
  receiver :: 'm
  unread :: reader
  made :: "nat list"

subsection \<open>Constants of package \<^verbatim>\<open>protos\<close>\<close>

text \<open>Modelled from the spec: the command strings \<^verbatim>\<open>CmdGetHeaders\<close> and
  \<^verbatim>\<open>CmdGetBlocks\<close>, declared elsewhere in the package ("Command tags:
  \<^verbatim>\<open>"getblocks"\<close>, \<^verbatim>\<open>"getheaders"\<close>").\<close>

definition CmdGetHeaders :: string where
  "CmdGetHeaders = ''getheaders''"

definition CmdGetBlocks :: string where
  "CmdGetBlocks = ''getblocks''"

text \<open>\<^verbatim>\<open>MaxBlockLocatorsPerMsg\<close> is declared in the file, for both message types.\<close>

definition MaxBlockLocatorsPerMsg :: nat where
  "MaxBlockLocatorsPerMsg = 500"

subsection \<open>\<^verbatim>\<open>MsgGetHeaders\<close>\<close>

text \<open>The struct. \<^verbatim>\<open>BlockLocatorHashes\<close> is a slice of pointers to hashes: an entry
  is \<open>Some h\<close> for a pointer to the hash value \<open>h\<close> and \<open>None\<close> for the nil pointer.
  A pointer is read as the value it points to: the decoder writes a slot of its buffer
  once, before it appends the slot's address, and never again.\<close>

record MsgGetHeaders =
  ProtocolVersion :: uint32
  BlockLocatorHashes :: "Hash option list"
  HashStop :: Hash

text \<open>\<^verbatim>\<open>AddBlockLocatorHash\<close>: the error returned and the receiver afterwards.\<close>

definition MsgGetHeaders_AddBlockLocatorHash ::
  "MsgGetHeaders \<Rightarrow> Hash option \<Rightarrow> error option \<times> MsgGetHeaders" where
  "MsgGetHeaders_AddBlockLocatorHash msg hash =
     (if length (MsgGetHeaders.BlockLocatorHashes msg) + 1 > MaxBlockLocatorsPerMsg
      then (Some (messageError ''MsgGetHeaders.AddBlockLocatorHash''
                    (''too many block locator hashes for message [max '' @
                     decimal MaxBlockLocatorsPerMsg @ '']'')), msg)
      else (None, msg\<lparr>MsgGetHeaders.BlockLocatorHashes :=
                          MsgGetHeaders.BlockLocatorHashes msg @ [hash]\<rparr>))"

text \<open>The loop of \<^verbatim>\<open>VVSDecode\<close>, from index \<open>i\<close>: \<open>locatorHashes\<close> is the
  contiguous buffer, \<open>msg\<close> the receiver. Indexing the buffer out of range would
  panic. A slot whose read fails stays in the buffer and is not appended.\<close>

function MsgGetHeaders_decode_hashes ::
  "nat \<Rightarrow> nat \<Rightarrow> reader \<Rightarrow> Hash list \<Rightarrow> MsgGetHeaders \<Rightarrow> error option \<times> MsgGetHeaders \<times> reader" where
  "MsgGetHeaders_decode_hashes i count r locatorHashes msg =
     (if i < count then
        (if i < length locatorHashes then
           (case ReadNBytes r (Rep_Hash (locatorHashes ! i)) HashLength of
              (Some e, bs, r') \<Rightarrow> (Some e, msg, r')
            | (None, bs, r') \<Rightarrow>
                (case MsgGetHeaders_AddBlockLocatorHash msg (Some (to_Hash bs)) of
                   (Some e, msg') \<Rightarrow> (Some e, msg', r')
                 | (None, msg') \<Rightarrow>
                     MsgGetHeaders_decode_hashes (i + 1) count r'
                       (locatorHashes[i := to_Hash bs]) msg'))
         else (Some (Panic ''index out of range''), msg, r))
      else (None, msg, r))"
  by pat_completeness auto
termination
  by (relation "measure (\<lambda>(i, count, r, locatorHashes, msg). count - i)") auto

declare MsgGetHeaders_decode_hashes.simps [simp del]

text \<open>\<^verbatim>\<open>VVSDecode\<close> decodes into the receiver \<open>msg\<close>.\<close>

definition MsgGetHeaders_VVSDecode ::
  "MsgGetHeaders \<Rightarrow> reader \<Rightarrow> uint32 \<Rightarrow> 'enc \<Rightarrow> MsgGetHeaders decoded" where
  "MsgGetHeaders_VVSDecode msg r pver enc =
     (case ReadUint32 r of
        (Inl e, r1) \<Rightarrow> \<lparr>err = Some e, receiver = msg, unread = r1, made = []\<rparr>
      | (Inr v, r1) \<Rightarrow>
          (let msg1 = msg\<lparr>MsgGetHeaders.ProtocolVersion := v\<rparr> in
           case ReadVarInt r1 pver of
             (Inl e, r2) \<Rightarrow> \<lparr>err = Some e, receiver = msg1, unread = r2, made = []\<rparr>
           | (Inr count, r2) \<Rightarrow>
               if count > of_nat MaxBlockLocatorsPerMsg
               then \<lparr>err = Some (messageError ''MsgGetHeaders.VVSDecode''
                               (''too many block locator hashes for message [count '' @
                                decimal (unat count) @ '', max '' @
                                decimal MaxBlockLocatorsPerMsg @ '']'')),
                     receiver = msg1, unread = r2, made = []\<rparr>
               else
                 (let locatorHashes = replicate (unat count) zero_Hash;
                      msg2 = msg1\<lparr>MsgGetHeaders.BlockLocatorHashes := []\<rparr>
                  in case MsgGetHeaders_decode_hashes 0 (unat count) r2 locatorHashes msg2 of
                       (Some e, msg3, r3) \<Rightarrow>
                         \<lparr>err = Some e, receiver = msg3, unread = r3,
                          made = [unat count, unat count]\<rparr>
                     | (None, msg3, r3) \<Rightarrow>
                         (case ReadNBytes r3 (Rep_Hash (MsgGetHeaders.HashStop msg3)) HashLength of
                            (e, bs, r4) \<Rightarrow>
                              \<lparr>err = e, receiver = msg3\<lparr>MsgGetHeaders.HashStop := to_Hash bs\<rparr>,
                               unread = r4, made = [unat count, unat count]\<rparr>))))"

text \<open>The loop of \<^verbatim>\<open>VVSEncode\<close> over the locator hashes. \<^verbatim>\<open>hash[:]\<close> dereferences
  the pointer, which panics when it is nil.\<close>

fun MsgGetHeaders_write_hashes :: "Hash option list \<Rightarrow> writer \<Rightarrow> error option \<times> writer" where
  "MsgGetHeaders_write_hashes [] w = (None, w)"
| "MsgGetHeaders_write_hashes (hash # hashes) w =
     (case hash of
        None \<Rightarrow> (Some (Panic ''nil pointer dereference''), w)
      | Some h \<Rightarrow>
          (case WriteNBytes w (Rep_Hash h) of
             (Some e, w') \<Rightarrow> (Some e, w')
           | (None, w') \<Rightarrow> MsgGetHeaders_write_hashes hashes w'))"

definition MsgGetHeaders_VVSEncode ::
  "MsgGetHeaders \<Rightarrow> writer \<Rightarrow> uint32 \<Rightarrow> 'enc \<Rightarrow> error option \<times> writer" where
  "MsgGetHeaders_VVSEncode msg w pver enc =
     (let count = length (MsgGetHeaders.BlockLocatorHashes msg) in
      if count > MaxBlockLocatorsPerMsg
      then (Some (messageError ''MsgGetHeaders.VVSEncode''
                    (''too many block locator hashes for message [count '' @
                     decimal count @ '', max '' @ decimal MaxBlockLocatorsPerMsg @ '']'')), w)
      else
        (case WriteUint32 w (MsgGetHeaders.ProtocolVersion msg) of
           (Some e, w1) \<Rightarrow> (Some e, w1)
         | (None, w1) \<Rightarrow>
             (case WriteVarInt w1 pver (of_nat count) of
                (Some e, w2) \<Rightarrow> (Some e, w2)
              | (None, w2) \<Rightarrow>
                  (case MsgGetHeaders_write_hashes (MsgGetHeaders.BlockLocatorHashes msg) w2 of
                     (Some e, w3) \<Rightarrow> (Some e, w3)
                   | (None, w3) \<Rightarrow> WriteNBytes w3 (Rep_Hash (MsgGetHeaders.HashStop msg))))))"

text \<open>\<^verbatim>\<open>Command\<close>, the protocol command string of the message.\<close>

definition MsgGetHeaders_Command :: "MsgGetHeaders \<Rightarrow> string" where
  "MsgGetHeaders_Command msg = CmdGetHeaders"


text \<open>\<^verbatim>\<open>NewMsgGetHeaders\<close>: the fields not named in the composite literal are zero.\<close>

definition NewMsgGetHeaders :: MsgGetHeaders where
  "NewMsgGetHeaders =
     \<lparr>MsgGetHeaders.ProtocolVersion = 0,
      BlockLocatorHashes = [],
      HashStop = zero_Hash\<rparr>"

subsection \<open>\<^verbatim>\<open>MsgGetBlocks\<close>\<close>

text \<open>The struct. \<^verbatim>\<open>BlockLocatorHashes\<close> is a slice of pointers to hashes: an entry
  is \<open>Some h\<close> for a pointer to the hash value \<open>h\<close> and \<open>None\<close> for the nil pointer.
  A pointer is read as the value it points to: the decoder writes a slot of its buffer
  once, before it appends the slot's address, and never again.\<close>

record MsgGetBlocks =
  ProtocolVersion :: uint32
  BlockLocatorHashes :: "Hash option list"
  HashStop :: Hash

text \<open>\<^verbatim>\<open>AddBlockLocatorHash\<close>: the error returned and the receiver afterwards.\<close>

definition MsgGetBlocks_AddBlockLocatorHash ::
  "MsgGetBlocks \<Rightarrow> Hash option \<Rightarrow> error option \<times> MsgGetBlocks" where
  "MsgGetBlocks_AddBlockLocatorHash msg hash =
     (if length (MsgGetBlocks.BlockLocatorHashes msg) + 1 > MaxBlockLocatorsPerMsg
      then (Some (messageError ''MsgGetBlocks.AddBlockLocatorHash''
                    (''too many block locator hashes for message [max '' @
                     decimal MaxBlockLocatorsPerMsg @ '']'')), msg)
      else (None, msg\<lparr>MsgGetBlocks.BlockLocatorHashes :=
                          MsgGetBlocks.BlockLocatorHashes msg @ [hash]\<rparr>))"

text \<open>The loop of \<^verbatim>\<open>VVSDecode\<close>, from index \<open>i\<close>: \<open>locatorHashes\<close> is the
  contiguous buffer, \<open>msg\<close> the receiver. Indexing the buffer out of range would
  panic. A slot whose read fails stays in the buffer and is not appended.\<close>

function MsgGetBlocks_decode_hashes ::
  "nat \<Rightarrow> nat \<Rightarrow> reader \<Rightarrow> Hash list \<Rightarrow> MsgGetBlocks \<Rightarrow> error option \<times> MsgGetBlocks \<times> reader" where
  "MsgGetBlocks_decode_hashes i count r locatorHashes msg =
     (if i < count then
        (if i < length locatorHashes then
           (case ReadNBytes r (Rep_Hash (locatorHashes ! i)) HashLength of
              (Some e, bs, r') \<Rightarrow> (Some e, msg, r')
            | (None, bs, r') \<Rightarrow>
                (case MsgGetBlocks_AddBlockLocatorHash msg (Some (to_Hash bs)) of
                   (Some e, msg') \<Rightarrow> (Some e, msg', r')
                 | (None, msg') \<Rightarrow>
                     MsgGetBlocks_decode_hashes (i + 1) count r'
                       (locatorHashes[i := to_Hash bs]) msg'))
         else (Some (Panic ''index out of range''), msg, r))
      else (None, msg, r))"
  by pat_completeness auto
termination
  by (relation "measure (\<lambda>(i, count, r, locatorHashes, msg). count - i)") auto

declare MsgGetBlocks_decode_hashes.simps [simp del]

text \<open>\<^verbatim>\<open>VVSDecode\<close> decodes into the receiver \<open>msg\<close>.\<close>

definition MsgGetBlocks_VVSDecode ::
  "MsgGetBlocks \<Rightarrow> reader \<Rightarrow> uint32 \<Rightarrow> 'enc \<Rightarrow> MsgGetBlocks decoded" where
  "MsgGetBlocks_VVSDecode msg r pver enc =
     (case ReadUint32 r of
        (Inl e, r1) \<Rightarrow> \<lparr>err = Some e, receiver = msg, unread = r1, made = []\<rparr>
      | (Inr v, r1) \<Rightarrow>
          (let msg1 = msg\<lparr>MsgGetBlocks.ProtocolVersion := v\<rparr> in
           case ReadVarInt r1 pver of
             (Inl e, r2) \<Rightarrow> \<lparr>err = Some e, receiver = msg1, unread = r2, made = []\<rparr>
           | (Inr count, r2) \<Rightarrow>
               if count > of_nat MaxBlockLocatorsPerMsg
               then \<lparr>err = Some (messageError ''MsgGetBlocks.VVSDecode''
                               (''too many block locator hashes for message [count '' @
                                decimal (unat count) @ '', max '' @
                                decimal MaxBlockLocatorsPerMsg @ '']'')),
                     receiver = msg1, unread = r2, made = []\<rparr>
               else
                 (let locatorHashes = replicate (unat count) zero_Hash;
                      msg2 = msg1\<lparr>MsgGetBlocks.BlockLocatorHashes := []\<rparr>
                  in case MsgGetBlocks_decode_hashes 0 (unat count) r2 locatorHashes msg2 of
                       (Some e, msg3, r3) \<Rightarrow>
                         \<lparr>err = Some e, receiver = msg3, unread = r3,
                          made = [unat count, unat count]\<rparr>
                     | (None, msg3, r3) \<Rightarrow>
                         (case ReadNBytes r3 (Rep_Hash (MsgGetBlocks.HashStop msg3)) HashLength of
                            (e, bs, r4) \<Rightarrow>
                              \<lparr>err = e, receiver = msg3\<lparr>MsgGetBlocks.HashStop := to_Hash bs\<rparr>,
                               unread = r4, made = [unat count, unat count]\<rparr>))))"

text \<open>The loop of \<^verbatim>\<open>VVSEncode\<close> over the locator hashes. \<^verbatim>\<open>hash[:]\<close> dereferences
  the pointer, which panics when it is nil.\<close>

fun MsgGetBlocks_write_hashes :: "Hash option list \<Rightarrow> writer \<Rightarrow> error option \<times> writer" where
  "MsgGetBlocks_write_hashes [] w = (None, w)"
| "MsgGetBlocks_write_hashes (hash # hashes) w =
     (case hash of
        None \<Rightarrow> (Some (Panic ''nil pointer dereference''), w)
      | Some h \<Rightarrow>
          (case WriteNBytes w (Rep_Hash h) of
             (Some e, w') \<Rightarrow> (Some e, w')
           | (None, w') \<Rightarrow> MsgGetBlocks_write_hashes hashes w'))"

definition MsgGetBlocks_VVSEncode ::
  "MsgGetBlocks \<Rightarrow> writer \<Rightarrow> uint32 \<Rightarrow> 'enc \<Rightarrow> error option \<times> writer" where
  "MsgGetBlocks_VVSEncode msg w pver enc =
     (let count = length (MsgGetBlocks.BlockLocatorHashes msg) in
      if count > MaxBlockLocatorsPerMsg
      then (Some (messageError ''MsgGetBlocks.VVSEncode''
                    (''too many block locator hashes for message [count '' @
                     decimal count @ '', max '' @ decimal MaxBlockLocatorsPerMsg @ '']'')), w)
      else
        (case WriteUint32 w (MsgGetBlocks.ProtocolVersion msg) of
           (Some e, w1) \<Rightarrow> (Some e, w1)
         | (None, w1) \<Rightarrow>
             (case WriteVarInt w1 pver (of_nat count) of
                (Some e, w2) \<Rightarrow> (Some e, w2)
              | (None, w2) \<Rightarrow>
                  (case MsgGetBlocks_write_hashes (MsgGetBlocks.BlockLocatorHashes msg) w2 of
                     (Some e, w3) \<Rightarrow> (Some e, w3)
                   | (None, w3) \<Rightarrow> WriteNBytes w3 (Rep_Hash (MsgGetBlocks.HashStop msg))))))"

text \<open>\<^verbatim>\<open>Command\<close>, the protocol command string of the message.\<close>

definition MsgGetBlocks_Command :: "MsgGetBlocks \<Rightarrow> string" where
  "MsgGetBlocks_Command msg = CmdGetBlocks"


text \<open>\<^verbatim>\<open>NewMsgGetBlocks\<close>. The constant \<^verbatim>\<open>common.ProtocolVersion\<close> is declared
  outside the file and is taken as the parameter \<open>common_ProtocolVersion\<close>. The stop
  hash arrives by pointer and is dereferenced, which panics when the pointer is nil.\<close>

definition NewMsgGetBlocks :: "uint32 \<Rightarrow> Hash option \<Rightarrow> error + MsgGetBlocks" where
  "NewMsgGetBlocks common_ProtocolVersion hashStop =
     (case hashStop of
        None \<Rightarrow> Inl (Panic ''nil pointer dereference'')
      | Some h \<Rightarrow>
          Inr \<lparr>MsgGetBlocks.ProtocolVersion = common_ProtocolVersion,
               BlockLocatorHashes = [],
               HashStop = h\<rparr>)"

subsection \<open>Notions used to state the properties\<close>

text \<open>The first \<open>n\<close> blocks of 32 bytes of a stream, each as a hash.\<close>

fun hashes_of :: "nat \<Rightarrow> byte list \<Rightarrow> Hash list" where
  "hashes_of 0 r = []"
| "hashes_of (Suc n) r = to_Hash (take 32 r) # hashes_of n (drop 32 r)"

text \<open>What a stream declares, when it is long enough to hold the version and the count:
  the version, the CompactSize count, and the bytes that follow the count.\<close>

definition declared :: "reader \<Rightarrow> uint32 \<Rightarrow> (uint32 \<times> uint64 \<times> reader) option" where
  "declared r pver =
     (case ReadUint32 r of
        (Inl e, r1) \<Rightarrow> None
      | (Inr v, r1) \<Rightarrow>
          (case ReadVarInt r1 pver of
             (Inl e, r2) \<Rightarrow> None
           | (Inr count, r2) \<Rightarrow> Some (v, count, r2)))"

text \<open>A truncated stream: shorter than the version, the count, \<open>count \<times> 32\<close> bytes of
  hashes and the stop hash require.\<close>

definition truncated :: "reader \<Rightarrow> uint32 \<Rightarrow> bool" where
  "truncated r pver =
     (case declared r pver of
        None \<Rightarrow> True
      | Some (v, count, r2) \<Rightarrow> length r2 < unat count * HashLength + HashLength)"

text \<open>The invariant of the data model, for each message type.\<close>

definition MsgGetHeaders_bounded :: "MsgGetHeaders \<Rightarrow> bool" where
  "MsgGetHeaders_bounded msg \<longleftrightarrow>
     length (MsgGetHeaders.BlockLocatorHashes msg) \<le> MaxBlockLocatorsPerMsg"

definition MsgGetBlocks_bounded :: "MsgGetBlocks \<Rightarrow> bool" where
  "MsgGetBlocks_bounded msg \<longleftrightarrow>
     length (MsgGetBlocks.BlockLocatorHashes msg) \<le> MaxBlockLocatorsPerMsg"

text \<open>A caller that adds the given hashes one after the other, keeping the result of
  every call.\<close>

fun MsgGetHeaders_add_each ::
  "MsgGetHeaders \<Rightarrow> Hash option list \<Rightarrow> error option list \<times> MsgGetHeaders" where
  "MsgGetHeaders_add_each msg [] = ([], msg)"
| "MsgGetHeaders_add_each msg (hash # hashes) =
     (case MsgGetHeaders_AddBlockLocatorHash msg hash of
        (e, msg') \<Rightarrow>
          (case MsgGetHeaders_add_each msg' hashes of (es, msg'') \<Rightarrow> (e # es, msg'')))"

fun MsgGetBlocks_add_each ::
  "MsgGetBlocks \<Rightarrow> Hash option list \<Rightarrow> error option list \<times> MsgGetBlocks" where
  "MsgGetBlocks_add_each msg [] = ([], msg)"
| "MsgGetBlocks_add_each msg (hash # hashes) =
     (case MsgGetBlocks_AddBlockLocatorHash msg hash of
        (e, msg') \<Rightarrow>
          (case MsgGetBlocks_add_each msg' hashes of (es, msg'') \<Rightarrow> (e # es, msg'')))"

text \<open>Field-wise equality of a getheaders and a getblocks message.\<close>

definition same_fields :: "MsgGetHeaders \<Rightarrow> MsgGetBlocks \<Rightarrow> bool" where
  "same_fields gh gb \<longleftrightarrow>
     MsgGetHeaders.ProtocolVersion gh = MsgGetBlocks.ProtocolVersion gb \<and>
     MsgGetHeaders.BlockLocatorHashes gh = MsgGetBlocks.BlockLocatorHashes gb \<and>
     MsgGetHeaders.HashStop gh = MsgGetBlocks.HashStop gb"

section \<open>Hashes, integers and streams\<close>

lemma length_Rep_Hash [simp]: "length (Rep_Hash h) = 32"
  using Rep_Hash [of h] by simp

lemma Rep_to_Hash: "Rep_Hash (to_Hash bs) = take 32 (bs @ replicate 32 0)"
  unfolding to_Hash_def by (rule Abs_Hash_inverse) simp

lemma Rep_to_Hash_32 [simp]: "length bs = 32 \<Longrightarrow> Rep_Hash (to_Hash bs) = bs"
  by (simp add: Rep_to_Hash)

lemma to_Hash_Rep [simp]: "to_Hash (Rep_Hash h) = h"
  by (simp add: to_Hash_def Rep_Hash_inverse)

lemma Rep_zero_Hash [simp]: "Rep_Hash zero_Hash = replicate 32 0"
  by (simp add: zero_Hash_def Rep_to_Hash)

lemma to_Hash_eq_iff:
  "length a = 32 \<Longrightarrow> length b = 32 \<Longrightarrow> to_Hash a = to_Hash b \<longleftrightarrow> a = b"
  by (metis Rep_to_Hash_32)

lemma length_LittleEndian_bytes [simp]: "length (LittleEndian_bytes k v) = k"
  by (induction k arbitrary: v) simp_all

lemma LittleEndian_value_bytes:
  "(LittleEndian_value (LittleEndian_bytes k v) :: 'a::len word) = take_bit (8 * k) v"
proof (induction k arbitrary: v)
  case 0
  show ?case by simp
next
  case (Suc k)
  show ?case
    apply (simp add: Suc)
    apply (rule bit_word_eqI)
    apply (auto simp add: bit_simps)
    done
qed

lemma ReadFull_append: "length a = n \<Longrightarrow> ReadFull (a @ rest) n = (None, a, rest)"
  by (simp add: ReadFull_def)

lemma Write_Buffer: "room w = None \<Longrightarrow> Write w p = (None, w\<lparr>written := written w @ p\<rparr>)"
  by (simp add: Write_def)


lemma ReadUint32_WriteUint32: "ReadUint32 (LittleEndian_bytes 4 v @ rest) = (Inr v, rest)"
  by (simp add: ReadUint32_def ReadFull_append LittleEndian_value_bytes take_bit_word_eq_self)



lemma ucast_down_up:
  fixes v :: uint64
  assumes "unat v < 2 ^ LENGTH('b::len)"
  shows "(ucast (ucast v :: 'b word) :: uint64) = v"
proof -
  have "unat (ucast (ucast v :: 'b word) :: uint64) = unat v"
    using assms by (simp add: unsigned_ucast_eq take_bit_nat_eq_self_iff unsigned_take_bit_eq)
  then show ?thesis by (simp add: word_unat_eq_iff)
qed

lemma ReadVarInt_1:
  assumes "v < 0xfd"
  shows "ReadVarInt (VarInt_bytes v @ rest) pver = (Inr v, rest)"
proof -
  have n: "unat v < 253" using assms by (simp add: word_less_nat_alt)
  have "unat (ucast v :: byte) = unat v"
    using n by (simp add: unsigned_ucast_eq take_bit_nat_eq_self_iff)
  then have "unat (ucast v :: byte) < 253" using n by simp
  then have ne: "(ucast v :: byte) \<noteq> 0xff" "(ucast v :: byte) \<noteq> 0xfe"
    "(ucast v :: byte) \<noteq> 0xfd"
    by auto
  have up: "(ucast (ucast v :: byte) :: uint64) = v"
    using n by (intro ucast_down_up) simp
  have enc: "VarInt_bytes v = [ucast v]" using assms by (simp add: VarInt_bytes_def)
  show ?thesis
    by (simp add: enc ReadVarInt_def ReadFull_def ne up)
qed

lemma ReadVarInt_3:
  assumes "\<not> v < 0xfd" "v \<le> 0xffff"
  shows "ReadVarInt (VarInt_bytes v @ rest) pver = (Inr v, rest)"
proof -
  have n: "unat v < 2 ^ 16" using assms(2) by (simp add: word_le_nat_alt)
  have up: "(ucast (ucast v :: uint16) :: uint64) = v"
    using n by (intro ucast_down_up) simp
  have enc: "VarInt_bytes v = 0xfd # LittleEndian_bytes 2 (ucast v :: uint16)"
    using assms by (simp add: VarInt_bytes_def)
  have "ReadFull (LittleEndian_bytes 2 (ucast v :: uint16) @ rest) 2
      = (None, LittleEndian_bytes 2 (ucast v :: uint16), rest)"
    by (rule ReadFull_append) simp
  then show ?thesis
    by (simp add: enc ReadVarInt_def ReadFull_def [of "_ # _"] LittleEndian_value_bytes
        take_bit_word_eq_self up)
qed

lemma ReadVarInt_5:
  assumes "\<not> v \<le> 0xffff" "v \<le> 0xffffffff"
  shows "ReadVarInt (VarInt_bytes v @ rest) pver = (Inr v, rest)"
proof -
  have n: "unat v < 2 ^ 32" using assms(2) by (simp add: word_le_nat_alt)
  have up: "(ucast (ucast v :: uint32) :: uint64) = v"
    using n by (intro ucast_down_up) simp
  have "\<not> v < 0xfd" using assms(1) by (simp add: word_le_nat_alt word_less_nat_alt)
  then have enc: "VarInt_bytes v = 0xfe # LittleEndian_bytes 4 (ucast v :: uint32)"
    using assms by (simp add: VarInt_bytes_def)
  have "ReadFull (LittleEndian_bytes 4 (ucast v :: uint32) @ rest) 4
      = (None, LittleEndian_bytes 4 (ucast v :: uint32), rest)"
    by (rule ReadFull_append) simp
  then show ?thesis
    by (simp add: enc ReadVarInt_def ReadFull_def [of "_ # _"] LittleEndian_value_bytes
        take_bit_word_eq_self up)
qed

lemma ReadVarInt_9:
  assumes "\<not> v \<le> 0xffffffff"
  shows "ReadVarInt (VarInt_bytes v @ rest) pver = (Inr v, rest)"
proof -
  have "\<not> v < 0xfd" "\<not> v \<le> 0xffff"
    using assms by (simp_all add: word_le_nat_alt word_less_nat_alt)
  then have enc: "VarInt_bytes v = 0xff # LittleEndian_bytes 8 v"
    using assms by (simp add: VarInt_bytes_def)
  have "ReadFull (LittleEndian_bytes 8 v @ rest) 8 = (None, LittleEndian_bytes 8 v, rest)"
    by (rule ReadFull_append) simp
  then show ?thesis
    by (simp add: enc ReadVarInt_def ReadFull_def [of "_ # _"] LittleEndian_value_bytes
        take_bit_word_eq_self)
qed

lemma ReadVarInt_VarInt_bytes: "ReadVarInt (VarInt_bytes v @ rest) pver = (Inr v, rest)"
  using ReadVarInt_1 ReadVarInt_3 ReadVarInt_5 ReadVarInt_9 by blast

lemma ReadVarInt_error:
  "ReadVarInt r pver = (Inl e, r') \<Longrightarrow> e = EOF \<or> e = ErrUnexpectedEOF"
  by (auto simp add: ReadVarInt_def ReadFull_def Let_def split: if_splits)

lemma ReadUint32_error:
  "ReadUint32 r = (Inl e, r') \<Longrightarrow> e = EOF \<or> e = ErrUnexpectedEOF"
  by (auto simp add: ReadUint32_def ReadFull_def split: if_splits)

lemma length_hashes_of [simp]: "length (hashes_of n r) = n"
  by (induction n arbitrary: r) simp_all

lemma length_concat_Rep_Hash [simp]: "length (concat (map Rep_Hash hs)) = 32 * length hs"
  by (induction hs) simp_all

lemma hashes_of_concat: "hashes_of (length hs) (concat (map Rep_Hash hs) @ rest) = hs"
  by (induction hs) simp_all

lemma ReadNBytes_full:
  "32 \<le> length r \<Longrightarrow> length dst = 32 \<Longrightarrow>
   ReadNBytes r dst HashLength = (None, take 32 r, drop 32 r)"
  by (simp add: ReadNBytes_def ReadFull_def HashLength_def)

lemma ReadNBytes_short:
  "length r < 32 \<Longrightarrow>
   ReadNBytes r dst HashLength =
     (Some (if r = [] then EOF else ErrUnexpectedEOF), r @ drop (length r) dst, [])"
  by (simp add: ReadNBytes_def ReadFull_def HashLength_def)

lemma count_check:
  "(count :: uint64) > of_nat MaxBlockLocatorsPerMsg \<longleftrightarrow> unat count > MaxBlockLocatorsPerMsg"
  by (simp add: MaxBlockLocatorsPerMsg_def word_less_nat_alt)

lemma no_nil_map_Some: "None \<notin> set hashes \<Longrightarrow> hashes = map Some (map the hashes)"
  by (induction hashes) auto

lemma unat_count: "n \<le> MaxBlockLocatorsPerMsg \<Longrightarrow> unat (of_nat n :: uint64) = n"
  by (simp add: MaxBlockLocatorsPerMsg_def unat_of_nat)


lemma declared_cases:
  obtains (version) e r1 where "ReadUint32 r = (Inl e, r1)" "declared r pver = None"
  | (count) v r1 e r2 where "ReadUint32 r = (Inr v, r1)" "ReadVarInt r1 pver = (Inl e, r2)"
      "declared r pver = None"
  | (both) v r1 count r2 where "ReadUint32 r = (Inr v, r1)"
      "ReadVarInt r1 pver = (Inr count, r2)" "declared r pver = Some (v, count, r2)"
proof (cases "ReadUint32 r")
  case (Pair a r1)
  show ?thesis
  proof (cases a)
    case (Inl e)
    with Pair show ?thesis by (intro version [of e r1]) (simp_all add: declared_def)
  next
    case (Inr v)
    show ?thesis
    proof (cases "ReadVarInt r1 pver")
      case p: (Pair b r2)
      show ?thesis
      proof (cases b)
        case (Inl e)
        with Pair Inr p show ?thesis
          by (intro count [of v r1 e r2]) (simp_all add: declared_def)
      next
        case c: (Inr n)
        with Pair Inr p show ?thesis
          by (intro both [of v r1 n r2]) (simp_all add: declared_def)
      qed
    qed
  qed
qed

lemma declared_SomeD:
  assumes "declared r pver = Some (v, count, r2)"
  obtains r1 where "ReadUint32 r = (Inr v, r1)" "ReadVarInt r1 pver = (Inr count, r2)"
  using assms by (cases r pver rule: declared_cases) simp_all

lemma declared_encoded:
  "declared (LittleEndian_bytes 4 v @ VarInt_bytes count @ rest) pver = Some (v, count, rest)"
  by (simp add: declared_def ReadUint32_WriteUint32 ReadVarInt_VarInt_bytes)

lemma LittleEndian_bytes_4: 
  "LittleEndian_bytes 4 v =
     [ucast v, ucast (drop_bit 8 v), ucast (drop_bit 16 v), ucast (drop_bit 24 v)]"
  by (simp add: numeral_eq_Suc drop_bit_drop_bit)

lemma VarInt_bytes_0: "VarInt_bytes 0 = [0]"
  by (simp add: VarInt_bytes_def)

section \<open>\<^verbatim>\<open>MsgGetHeaders\<close>: the operations step by step\<close>

lemma MsgGetHeaders_Add_ok:
  "length (MsgGetHeaders.BlockLocatorHashes msg) < MaxBlockLocatorsPerMsg \<Longrightarrow>
   MsgGetHeaders_AddBlockLocatorHash msg hash =
     (None, msg\<lparr>MsgGetHeaders.BlockLocatorHashes := MsgGetHeaders.BlockLocatorHashes msg @ [hash]\<rparr>)"
  by (simp add: MsgGetHeaders_AddBlockLocatorHash_def)

lemma MsgGetHeaders_Add_full:
  "\<not> length (MsgGetHeaders.BlockLocatorHashes msg) < MaxBlockLocatorsPerMsg \<Longrightarrow>
   MsgGetHeaders_AddBlockLocatorHash msg hash =
     (Some (messageError ''MsgGetHeaders.AddBlockLocatorHash''
              (''too many block locator hashes for message [max '' @
               decimal MaxBlockLocatorsPerMsg @ '']'')), msg)"
  by (simp add: MsgGetHeaders_AddBlockLocatorHash_def)

lemma MsgGetHeaders_add_each_append:
  "MsgGetHeaders_add_each msg (xs @ ys) =
     (case MsgGetHeaders_add_each msg xs of
        (es, msg') \<Rightarrow> (case MsgGetHeaders_add_each msg' ys of (es', msg'') \<Rightarrow> (es @ es', msg'')))"
  by (induction xs arbitrary: msg) (simp_all split: prod.splits)

lemma MsgGetHeaders_add_each_room:
  "length (MsgGetHeaders.BlockLocatorHashes msg) + length hashes \<le> MaxBlockLocatorsPerMsg \<Longrightarrow>
   MsgGetHeaders_add_each msg hashes =
     (replicate (length hashes) None,
      msg\<lparr>MsgGetHeaders.BlockLocatorHashes := MsgGetHeaders.BlockLocatorHashes msg @ hashes\<rparr>)"
proof (induction hashes arbitrary: msg)
  case Nil
  show ?case by simp
next
  case (Cons hash hashes)
  let ?m = "msg\<lparr>MsgGetHeaders.BlockLocatorHashes := MsgGetHeaders.BlockLocatorHashes msg @ [hash]\<rparr>"
  from Cons.prems have "length (MsgGetHeaders.BlockLocatorHashes msg) < MaxBlockLocatorsPerMsg"
    by simp
  then have "MsgGetHeaders_AddBlockLocatorHash msg hash = (None, ?m)"
    by (rule MsgGetHeaders_Add_ok)
  moreover have "MsgGetHeaders_add_each ?m hashes =
     (replicate (length hashes) None,
      ?m\<lparr>MsgGetHeaders.BlockLocatorHashes := MsgGetHeaders.BlockLocatorHashes ?m @ hashes\<rparr>)"
    using Cons.prems by (intro Cons.IH) simp
  ultimately show ?case by simp
qed

lemma MsgGetHeaders_decode_hashes_done:
  "\<not> i < count \<Longrightarrow> MsgGetHeaders_decode_hashes i count r buf msg = (None, msg, r)"
  by (simp add: MsgGetHeaders_decode_hashes.simps)

lemma MsgGetHeaders_decode_hashes_short:
  "i < count \<Longrightarrow> i < length buf \<Longrightarrow> length r < 32 \<Longrightarrow>
   MsgGetHeaders_decode_hashes i count r buf msg =
     (Some (if r = [] then EOF else ErrUnexpectedEOF), msg, [])"
  by (subst MsgGetHeaders_decode_hashes.simps) (simp add: ReadNBytes_short)

lemma MsgGetHeaders_decode_hashes_step:
  "i < count \<Longrightarrow> i < length buf \<Longrightarrow> 32 \<le> length r \<Longrightarrow>
   length (MsgGetHeaders.BlockLocatorHashes msg) < MaxBlockLocatorsPerMsg \<Longrightarrow>
   MsgGetHeaders_decode_hashes i count r buf msg =
     MsgGetHeaders_decode_hashes (i + 1) count (drop 32 r) (buf[i := to_Hash (take 32 r)])
       (msg\<lparr>MsgGetHeaders.BlockLocatorHashes :=
              MsgGetHeaders.BlockLocatorHashes msg @ [Some (to_Hash (take 32 r))]\<rparr>)"
  by (subst MsgGetHeaders_decode_hashes.simps)
     (simp add: ReadNBytes_full MsgGetHeaders_Add_ok)

text \<open>The whole loop: it appends the hashes the stream holds in full, up to the count,
  and fails with a read error when the stream ends before that.\<close>

lemma MsgGetHeaders_decode_hashes_run:
  assumes "i \<le> count" "length buf = count"
    "length (MsgGetHeaders.BlockLocatorHashes msg) + (count - i) \<le> MaxBlockLocatorsPerMsg"
  shows "MsgGetHeaders_decode_hashes i count r buf msg =
     (if count - i \<le> length r div 32
      then (None,
            msg\<lparr>MsgGetHeaders.BlockLocatorHashes :=
                  MsgGetHeaders.BlockLocatorHashes msg @ map Some (hashes_of (count - i) r)\<rparr>,
            drop (32 * (count - i)) r)
      else (Some (if length r mod 32 = 0 then EOF else ErrUnexpectedEOF),
            msg\<lparr>MsgGetHeaders.BlockLocatorHashes :=
                  MsgGetHeaders.BlockLocatorHashes msg @ map Some (hashes_of (length r div 32) r)\<rparr>,
            []))"
  using assms
proof (induction "count - i" arbitrary: i r buf msg)
  case 0
  then show ?case by (simp add: MsgGetHeaders_decode_hashes_done)
next
  case (Suc n)
  from Suc.hyps(2) Suc.prems have i: "i < count" "i < length buf" "n = count - (i + 1)"
    and room: "length (MsgGetHeaders.BlockLocatorHashes msg) < MaxBlockLocatorsPerMsg"
    by simp_all
  show ?case
  proof (cases "32 \<le> length r")
    case False
    then have "length r div 32 = 0" "length r mod 32 = 0 \<longleftrightarrow> r = []" by simp_all
    with False i Suc.hyps(2) show ?thesis
      by (simp add: MsgGetHeaders_decode_hashes_short)
  next
    case True
    let ?m = "msg\<lparr>MsgGetHeaders.BlockLocatorHashes :=
              MsgGetHeaders.BlockLocatorHashes msg @ [Some (to_Hash (take 32 r))]\<rparr>"
    have d: "length r div 32 = Suc ((length r - 32) div 32)"
      and m: "(length r - 32) mod 32 = length r mod 32"
      using True by (simp_all add: le_div_geq le_mod_geq)
    have c: "count - i = Suc n" using Suc.hyps(2) by simp
    have ih: "MsgGetHeaders_decode_hashes (i + 1) count (drop 32 r) (buf[i := to_Hash (take 32 r)]) ?m =
      (if count - (i + 1) \<le> length (drop 32 r) div 32
      then (None,
            ?m\<lparr>MsgGetHeaders.BlockLocatorHashes :=
                  MsgGetHeaders.BlockLocatorHashes ?m @
                  map Some (hashes_of (count - (i + 1)) (drop 32 r))\<rparr>,
            drop (32 * (count - (i + 1))) (drop 32 r))
      else (Some (if length (drop 32 r) mod 32 = 0 then EOF else ErrUnexpectedEOF),
            ?m\<lparr>MsgGetHeaders.BlockLocatorHashes :=
                  MsgGetHeaders.BlockLocatorHashes ?m @
                  map Some (hashes_of (length (drop 32 r) div 32) (drop 32 r))\<rparr>,
            []))"
      using i Suc.prems by (intro Suc.hyps(1)) simp_all
    show ?thesis
      unfolding MsgGetHeaders_decode_hashes_step [OF i(1,2) True room] ih
      using i(3) by (simp add: c d m add.commute)
  qed
qed

text \<open>The four ways through \<^verbatim>\<open>VVSDecode\<close>.\<close>

lemma MsgGetHeaders_VVSDecode_version_fails:
  "ReadUint32 r = (Inl e, r1) \<Longrightarrow>
   MsgGetHeaders_VVSDecode msg r pver enc =
     \<lparr>err = Some e, receiver = msg, unread = r1, made = []\<rparr>"
  by (simp add: MsgGetHeaders_VVSDecode_def)

lemma MsgGetHeaders_VVSDecode_count_fails:
  "ReadUint32 r = (Inr v, r1) \<Longrightarrow> ReadVarInt r1 pver = (Inl e, r2) \<Longrightarrow>
   MsgGetHeaders_VVSDecode msg r pver enc =
     \<lparr>err = Some e, receiver = msg\<lparr>MsgGetHeaders.ProtocolVersion := v\<rparr>,
      unread = r2, made = []\<rparr>"
  by (simp add: MsgGetHeaders_VVSDecode_def)

lemma MsgGetHeaders_VVSDecode_too_many:
  "ReadUint32 r = (Inr v, r1) \<Longrightarrow> ReadVarInt r1 pver = (Inr count, r2) \<Longrightarrow>
   MaxBlockLocatorsPerMsg < unat count \<Longrightarrow>
   MsgGetHeaders_VVSDecode msg r pver enc =
     \<lparr>err = Some (messageError ''MsgGetHeaders.VVSDecode''
                   (''too many block locator hashes for message [count '' @
                    decimal (unat count) @ '', max '' @
                    decimal MaxBlockLocatorsPerMsg @ '']'')),
      receiver = msg\<lparr>MsgGetHeaders.ProtocolVersion := v\<rparr>,
      unread = r2, made = []\<rparr>"
  by (simp add: MsgGetHeaders_VVSDecode_def count_check)

lemma MsgGetHeaders_VVSDecode_bounded:
  assumes "ReadUint32 r = (Inr v, r1)" "ReadVarInt r1 pver = (Inr count, r2)"
    "unat count \<le> MaxBlockLocatorsPerMsg"
  shows "MsgGetHeaders_VVSDecode msg r pver enc =
     (if unat count \<le> length r2 div 32
      then (case ReadNBytes (drop (32 * unat count) r2) (Rep_Hash (MsgGetHeaders.HashStop msg))
                   HashLength of
              (e, bs, r4) \<Rightarrow>
                \<lparr>err = e,
                 receiver = msg\<lparr>MsgGetHeaders.ProtocolVersion := v,
                   MsgGetHeaders.BlockLocatorHashes := map Some (hashes_of (unat count) r2),
                   MsgGetHeaders.HashStop := to_Hash bs\<rparr>,
                 unread = r4, made = [unat count, unat count]\<rparr>)
      else \<lparr>err = Some (if length r2 mod 32 = 0 then EOF else ErrUnexpectedEOF),
            receiver = msg\<lparr>MsgGetHeaders.ProtocolVersion := v,
              MsgGetHeaders.BlockLocatorHashes := map Some (hashes_of (length r2 div 32) r2)\<rparr>,
            unread = [], made = [unat count, unat count]\<rparr>)"
proof -
  let ?m = "msg\<lparr>MsgGetHeaders.ProtocolVersion := v, MsgGetHeaders.BlockLocatorHashes := []\<rparr>"
  have loop: "MsgGetHeaders_decode_hashes 0 (unat count) r2 (replicate (unat count) zero_Hash) ?m =
     (if unat count - 0 \<le> length r2 div 32
      then (None,
            ?m\<lparr>MsgGetHeaders.BlockLocatorHashes :=
                  MsgGetHeaders.BlockLocatorHashes ?m @ map Some (hashes_of (unat count - 0) r2)\<rparr>,
            drop (32 * (unat count - 0)) r2)
      else (Some (if length r2 mod 32 = 0 then EOF else ErrUnexpectedEOF),
            ?m\<lparr>MsgGetHeaders.BlockLocatorHashes :=
                  MsgGetHeaders.BlockLocatorHashes ?m @ map Some (hashes_of (length r2 div 32) r2)\<rparr>,
            []))"
    using assms(3) by (intro MsgGetHeaders_decode_hashes_run) simp_all
  have ok: "\<not> count > of_nat MaxBlockLocatorsPerMsg"
    using assms(3) by (simp add: count_check)
  show ?thesis
    unfolding MsgGetHeaders_VVSDecode_def
    by (simp add: assms(1,2) ok loop Let_def split: prod.split)
qed

text \<open>A stream that holds the count's hashes and the stop hash decodes without error;
  a shorter one fails with a read error.\<close>

lemma MsgGetHeaders_VVSDecode_complete:
  assumes "ReadUint32 r = (Inr v, r1)" "ReadVarInt r1 pver = (Inr count, r2)"
    "unat count \<le> MaxBlockLocatorsPerMsg" "32 * unat count + 32 \<le> length r2"
  shows "MsgGetHeaders_VVSDecode msg r pver enc =
     \<lparr>err = None,
      receiver = msg\<lparr>MsgGetHeaders.ProtocolVersion := v,
        MsgGetHeaders.BlockLocatorHashes := map Some (hashes_of (unat count) r2),
        MsgGetHeaders.HashStop := to_Hash (take 32 (drop (32 * unat count) r2))\<rparr>,
      unread = drop 32 (drop (32 * unat count) r2), made = [unat count, unat count]\<rparr>"
proof -
  have "unat count \<le> length r2 div 32" using assms(4) by (simp add: less_eq_div_iff_mult_less_eq)
  moreover have "32 \<le> length (drop (32 * unat count) r2)" using assms(4) by simp
  ultimately show ?thesis
    unfolding MsgGetHeaders_VVSDecode_bounded [OF assms(1-3)]
    by (simp add: ReadNBytes_full)
qed

lemma MsgGetHeaders_VVSDecode_cut:
  assumes "ReadUint32 r = (Inr v, r1)" "ReadVarInt r1 pver = (Inr count, r2)"
    "unat count \<le> MaxBlockLocatorsPerMsg" "length r2 < 32 * unat count + 32"
  shows "err (MsgGetHeaders_VVSDecode msg r pver enc) \<in> {Some EOF, Some ErrUnexpectedEOF}"
    and "MsgGetHeaders.ProtocolVersion (receiver (MsgGetHeaders_VVSDecode msg r pver enc)) = v"
    and "MsgGetHeaders.BlockLocatorHashes (receiver (MsgGetHeaders_VVSDecode msg r pver enc)) =
      map Some (hashes_of (min (unat count) (length r2 div 32)) r2)"
proof -
  let ?d = "MsgGetHeaders_VVSDecode msg r pver enc"
  have "err ?d \<in> {Some EOF, Some ErrUnexpectedEOF} \<and>
    MsgGetHeaders.ProtocolVersion (receiver ?d) = v \<and>
    MsgGetHeaders.BlockLocatorHashes (receiver ?d) =
      map Some (hashes_of (min (unat count) (length r2 div 32)) r2)"
  proof (cases "unat count \<le> length r2 div 32")
    case True
    then have "32 * unat count \<le> length r2" by (simp add: less_eq_div_iff_mult_less_eq)
    with assms(4) have "length (drop (32 * unat count) r2) < 32" by simp
    with True show ?thesis
      unfolding MsgGetHeaders_VVSDecode_bounded [OF assms(1-3)]
      by (simp add: ReadNBytes_short min_absorb1)
  next
    case False
    then show ?thesis
      unfolding MsgGetHeaders_VVSDecode_bounded [OF assms(1-3)]
      by (simp add: min_absorb2)
  qed
  then show "err ?d \<in> {Some EOF, Some ErrUnexpectedEOF}"
    and "MsgGetHeaders.ProtocolVersion (receiver ?d) = v"
    and "MsgGetHeaders.BlockLocatorHashes (receiver ?d) =
      map Some (hashes_of (min (unat count) (length r2 div 32)) r2)"
    by simp_all
qed

text \<open>The error of \<^verbatim>\<open>VVSDecode\<close> is a read error or the error of the count check.\<close>

lemma MsgGetHeaders_VVSDecode_errors:
  "err (MsgGetHeaders_VVSDecode msg r pver enc) = Some e \<Longrightarrow>
   e = EOF \<or> e = ErrUnexpectedEOF \<or>
   (\<exists>desc. e = messageError ''MsgGetHeaders.VVSDecode'' desc)"
proof (cases r pver rule: declared_cases)
  case (version e' r1)
  assume "err (MsgGetHeaders_VVSDecode msg r pver enc) = Some e"
  with version(1) ReadUint32_error [OF version(1)] show ?thesis
    by (auto simp add: MsgGetHeaders_VVSDecode_version_fails)
next
  case (count v r1 e' r2)
  assume "err (MsgGetHeaders_VVSDecode msg r pver enc) = Some e"
  with count(1,2) ReadVarInt_error [OF count(2)] show ?thesis
    by (auto simp add: MsgGetHeaders_VVSDecode_count_fails)
next
  case (both v r1 count r2)
  assume e: "err (MsgGetHeaders_VVSDecode msg r pver enc) = Some e"
  show ?thesis
  proof (cases "unat count \<le> MaxBlockLocatorsPerMsg")
    case False
    with e both(1,2) show ?thesis
      by (auto simp add: MsgGetHeaders_VVSDecode_too_many)
  next
    case True
    show ?thesis
    proof (cases "32 * unat count + 32 \<le> length r2")
      case long: True
      with e show ?thesis
        by (simp add: MsgGetHeaders_VVSDecode_complete [OF both(1,2) True long])
    next
      case False
      then have "length r2 < 32 * unat count + 32" by simp
      from MsgGetHeaders_VVSDecode_cut(1) [OF both(1,2) True this, of msg enc] e show ?thesis
        by auto
    qed
  qed
qed

text \<open>A decoding without error: the stream was complete, and every field of the
  receiver comes from the stream.\<close>

lemma MsgGetHeaders_VVSDecode_success:
  assumes "err (MsgGetHeaders_VVSDecode msg r pver enc) = None"
  obtains v count r2 where "declared r pver = Some (v, count, r2)"
    "unat count \<le> MaxBlockLocatorsPerMsg"
    "\<forall>m. MsgGetHeaders_VVSDecode m r pver enc =
       \<lparr>err = None,
        receiver = m\<lparr>MsgGetHeaders.ProtocolVersion := v,
          MsgGetHeaders.BlockLocatorHashes := map Some (hashes_of (unat count) r2),
          MsgGetHeaders.HashStop := to_Hash (take 32 (drop (32 * unat count) r2))\<rparr>,
        unread = drop 32 (drop (32 * unat count) r2), made = [unat count, unat count]\<rparr>"
proof (cases r pver rule: declared_cases)
  case (version e' r1)
  with assms show ?thesis by (simp add: MsgGetHeaders_VVSDecode_version_fails)
next
  case (count v r1 e' r2)
  with assms show ?thesis by (simp add: MsgGetHeaders_VVSDecode_count_fails)
next
  case (both v r1 count r2)
  have le: "unat count \<le> MaxBlockLocatorsPerMsg"
  proof (rule ccontr)
    assume "\<not> ?thesis"
    with assms both(1,2) show False by (simp add: MsgGetHeaders_VVSDecode_too_many)
  qed
  have long: "32 * unat count + 32 \<le> length r2"
  proof (rule ccontr)
    assume "\<not> ?thesis"
    then have "length r2 < 32 * unat count + 32" by simp
    from MsgGetHeaders_VVSDecode_cut(1) [OF both(1,2) le this, of msg enc] assms show False
      by simp
  qed
  show ?thesis
    by (rule that [OF both(3) le]) (simp add: MsgGetHeaders_VVSDecode_complete [OF both(1,2) le long])
qed

text \<open>Encoding.\<close>

lemma MsgGetHeaders_write_hashes_Buffer:
  "room w = None \<Longrightarrow>
   MsgGetHeaders_write_hashes (map Some hs) w =
     (None, w\<lparr>written := written w @ concat (map Rep_Hash hs)\<rparr>)"
  by (induction hs arbitrary: w) (simp_all add: WriteNBytes_def Write_Buffer)


lemma MsgGetHeaders_VVSEncode_Buffer:
  assumes "length hs \<le> MaxBlockLocatorsPerMsg" "MsgGetHeaders.BlockLocatorHashes msg = map Some hs"
    "room w = None"
  shows "MsgGetHeaders_VVSEncode msg w pver enc =
     (None, w\<lparr>written := written w @ LittleEndian_bytes 4 (MsgGetHeaders.ProtocolVersion msg) @
        VarInt_bytes (of_nat (length hs)) @ concat (map Rep_Hash hs) @
        Rep_Hash (MsgGetHeaders.HashStop msg)\<rparr>)"
  using assms
  by (simp add: MsgGetHeaders_VVSEncode_def WriteUint32_def WriteVarInt_def WriteNBytes_def
      Write_Buffer MsgGetHeaders_write_hashes_Buffer)


lemma MsgGetHeaders_decode_encoded:
  assumes "length hs \<le> MaxBlockLocatorsPerMsg"
  shows "MsgGetHeaders_VVSDecode m0
     (LittleEndian_bytes 4 v @ VarInt_bytes (of_nat (length hs)) @ concat (map Rep_Hash hs) @
      Rep_Hash stop) pver enc =
     \<lparr>err = None,
      receiver = m0\<lparr>MsgGetHeaders.ProtocolVersion := v,
        MsgGetHeaders.BlockLocatorHashes := map Some hs,
        MsgGetHeaders.HashStop := stop\<rparr>,
      unread = [], made = [length hs, length hs]\<rparr>"
proof -
  let ?r2 = "concat (map Rep_Hash hs) @ Rep_Hash stop"
  have n: "unat (of_nat (length hs) :: uint64) = length hs"
    using assms by (rule unat_count)
  have a: "ReadUint32 (LittleEndian_bytes 4 v @ VarInt_bytes (of_nat (length hs)) @ ?r2) =
    (Inr v, VarInt_bytes (of_nat (length hs)) @ ?r2)"
    by (rule ReadUint32_WriteUint32)
  have b: "ReadVarInt (VarInt_bytes (of_nat (length hs)) @ ?r2) pver =
    (Inr (of_nat (length hs)), ?r2)"
    by (rule ReadVarInt_VarInt_bytes)
  have c: "unat (of_nat (length hs) :: uint64) \<le> MaxBlockLocatorsPerMsg"
    using assms n by simp
  show ?thesis
    unfolding MsgGetHeaders_VVSDecode_bounded [OF a b c] n
    by (simp add: hashes_of_concat ReadNBytes_full)
qed

text \<open>The payload of 37 zero bytes: version 0, no locators, zero stop hash.\<close>

lemma MsgGetHeaders_decode_zeros:
  "MsgGetHeaders_VVSDecode m (replicate 37 0) pver enc =
     \<lparr>err = None,
      receiver = m\<lparr>MsgGetHeaders.ProtocolVersion := 0, MsgGetHeaders.BlockLocatorHashes := [],
        MsgGetHeaders.HashStop := zero_Hash\<rparr>,
      unread = [], made = [0, 0]\<rparr>"
proof -
  have bytes: "LittleEndian_bytes 4 (0 :: uint32) @ VarInt_bytes (of_nat (length ([] :: Hash list))) @
      concat (map Rep_Hash []) @ Rep_Hash zero_Hash = replicate 37 0"
    by (simp add: LittleEndian_bytes_4 VarInt_bytes_0 numeral_eq_Suc)
  have "length ([] :: Hash list) \<le> MaxBlockLocatorsPerMsg" by simp
  from MsgGetHeaders_decode_encoded [OF this, of m 0 zero_Hash pver enc]
  show ?thesis unfolding bytes by simp
qed

section \<open>\<^verbatim>\<open>MsgGetBlocks\<close>: the operations step by step\<close>

lemma MsgGetBlocks_Add_ok:
  "length (MsgGetBlocks.BlockLocatorHashes msg) < MaxBlockLocatorsPerMsg \<Longrightarrow>
   MsgGetBlocks_AddBlockLocatorHash msg hash =
     (None, msg\<lparr>MsgGetBlocks.BlockLocatorHashes := MsgGetBlocks.BlockLocatorHashes msg @ [hash]\<rparr>)"
  by (simp add: MsgGetBlocks_AddBlockLocatorHash_def)

lemma MsgGetBlocks_Add_full:
  "\<not> length (MsgGetBlocks.BlockLocatorHashes msg) < MaxBlockLocatorsPerMsg \<Longrightarrow>
   MsgGetBlocks_AddBlockLocatorHash msg hash =
     (Some (messageError ''MsgGetBlocks.AddBlockLocatorHash''
              (''too many block locator hashes for message [max '' @
               decimal MaxBlockLocatorsPerMsg @ '']'')), msg)"
  by (simp add: MsgGetBlocks_AddBlockLocatorHash_def)

lemma MsgGetBlocks_add_each_append:
  "MsgGetBlocks_add_each msg (xs @ ys) =
     (case MsgGetBlocks_add_each msg xs of
        (es, msg') \<Rightarrow> (case MsgGetBlocks_add_each msg' ys of (es', msg'') \<Rightarrow> (es @ es', msg'')))"
  by (induction xs arbitrary: msg) (simp_all split: prod.splits)

lemma MsgGetBlocks_add_each_room:
  "length (MsgGetBlocks.BlockLocatorHashes msg) + length hashes \<le> MaxBlockLocatorsPerMsg \<Longrightarrow>
   MsgGetBlocks_add_each msg hashes =
     (replicate (length hashes) None,
      msg\<lparr>MsgGetBlocks.BlockLocatorHashes := MsgGetBlocks.BlockLocatorHashes msg @ hashes\<rparr>)"
proof (induction hashes arbitrary: msg)
  case Nil
  show ?case by simp
next
  case (Cons hash hashes)
  let ?m = "msg\<lparr>MsgGetBlocks.BlockLocatorHashes := MsgGetBlocks.BlockLocatorHashes msg @ [hash]\<rparr>"
  from Cons.prems have "length (MsgGetBlocks.BlockLocatorHashes msg) < MaxBlockLocatorsPerMsg"
    by simp
  then have "MsgGetBlocks_AddBlockLocatorHash msg hash = (None, ?m)"
    by (rule MsgGetBlocks_Add_ok)
  moreover have "MsgGetBlocks_add_each ?m hashes =
     (replicate (length hashes) None,
      ?m\<lparr>MsgGetBlocks.BlockLocatorHashes := MsgGetBlocks.BlockLocatorHashes ?m @ hashes\<rparr>)"
    using Cons.prems by (intro Cons.IH) simp
  ultimately show ?case by simp
qed

lemma MsgGetBlocks_decode_hashes_done:
  "\<not> i < count \<Longrightarrow> MsgGetBlocks_decode_hashes i count r buf msg = (None, msg, r)"
  by (simp add: MsgGetBlocks_decode_hashes.simps)

lemma MsgGetBlocks_decode_hashes_short:
  "i < count \<Longrightarrow> i < length buf \<Longrightarrow> length r < 32 \<Longrightarrow>
   MsgGetBlocks_decode_hashes i count r buf msg =
     (Some (if r = [] then EOF else ErrUnexpectedEOF), msg, [])"
  by (subst MsgGetBlocks_decode_hashes.simps) (simp add: ReadNBytes_short)

lemma MsgGetBlocks_decode_hashes_step:
  "i < count \<Longrightarrow> i < length buf \<Longrightarrow> 32 \<le> length r \<Longrightarrow>
   length (MsgGetBlocks.BlockLocatorHashes msg) < MaxBlockLocatorsPerMsg \<Longrightarrow>
   MsgGetBlocks_decode_hashes i count r buf msg =
     MsgGetBlocks_decode_hashes (i + 1) count (drop 32 r) (buf[i := to_Hash (take 32 r)])
       (msg\<lparr>MsgGetBlocks.BlockLocatorHashes :=
              MsgGetBlocks.BlockLocatorHashes msg @ [Some (to_Hash (take 32 r))]\<rparr>)"
  by (subst MsgGetBlocks_decode_hashes.simps)
     (simp add: ReadNBytes_full MsgGetBlocks_Add_ok)

text \<open>The whole loop: it appends the hashes the stream holds in full, up to the count,
  and fails with a read error when the stream ends before that.\<close>

lemma MsgGetBlocks_decode_hashes_run:
  assumes "i \<le> count" "length buf = count"
    "length (MsgGetBlocks.BlockLocatorHashes msg) + (count - i) \<le> MaxBlockLocatorsPerMsg"
  shows "MsgGetBlocks_decode_hashes i count r buf msg =
     (if count - i \<le> length r div 32
      then (None,
            msg\<lparr>MsgGetBlocks.BlockLocatorHashes :=
                  MsgGetBlocks.BlockLocatorHashes msg @ map Some (hashes_of (count - i) r)\<rparr>,
            drop (32 * (count - i)) r)
      else (Some (if length r mod 32 = 0 then EOF else ErrUnexpectedEOF),
            msg\<lparr>MsgGetBlocks.BlockLocatorHashes :=
                  MsgGetBlocks.BlockLocatorHashes msg @ map Some (hashes_of (length r div 32) r)\<rparr>,
            []))"
  using assms
proof (induction "count - i" arbitrary: i r buf msg)
  case 0
  then show ?case by (simp add: MsgGetBlocks_decode_hashes_done)
next
  case (Suc n)
  from Suc.hyps(2) Suc.prems have i: "i < count" "i < length buf" "n = count - (i + 1)"
    and room: "length (MsgGetBlocks.BlockLocatorHashes msg) < MaxBlockLocatorsPerMsg"
    by simp_all
  show ?case
  proof (cases "32 \<le> length r")
    case False
    then have "length r div 32 = 0" "length r mod 32 = 0 \<longleftrightarrow> r = []" by simp_all
    with False i Suc.hyps(2) show ?thesis
      by (simp add: MsgGetBlocks_decode_hashes_short)
  next
    case True
    let ?m = "msg\<lparr>MsgGetBlocks.BlockLocatorHashes :=
              MsgGetBlocks.BlockLocatorHashes msg @ [Some (to_Hash (take 32 r))]\<rparr>"
    have d: "length r div 32 = Suc ((length r - 32) div 32)"
      and m: "(length r - 32) mod 32 = length r mod 32"
      using True by (simp_all add: le_div_geq le_mod_geq)
    have c: "count - i = Suc n" using Suc.hyps(2) by simp
    have ih: "MsgGetBlocks_decode_hashes (i + 1) count (drop 32 r) (buf[i := to_Hash (take 32 r)]) ?m =
      (if count - (i + 1) \<le> length (drop 32 r) div 32
      then (None,
            ?m\<lparr>MsgGetBlocks.BlockLocatorHashes :=
                  MsgGetBlocks.BlockLocatorHashes ?m @
                  map Some (hashes_of (count - (i + 1)) (drop 32 r))\<rparr>,
            drop (32 * (count - (i + 1))) (drop 32 r))
      else (Some (if length (drop 32 r) mod 32 = 0 then EOF else ErrUnexpectedEOF),
            ?m\<lparr>MsgGetBlocks.BlockLocatorHashes :=
                  MsgGetBlocks.BlockLocatorHashes ?m @
                  map Some (hashes_of (length (drop 32 r) div 32) (drop 32 r))\<rparr>,
            []))"
      using i Suc.prems by (intro Suc.hyps(1)) simp_all
    show ?thesis
      unfolding MsgGetBlocks_decode_hashes_step [OF i(1,2) True room] ih
      using i(3) by (simp add: c d m add.commute)
  qed
qed

text \<open>The four ways through \<^verbatim>\<open>VVSDecode\<close>.\<close>

lemma MsgGetBlocks_VVSDecode_version_fails:
  "ReadUint32 r = (Inl e, r1) \<Longrightarrow>
   MsgGetBlocks_VVSDecode msg r pver enc =
     \<lparr>err = Some e, receiver = msg, unread = r1, made = []\<rparr>"
  by (simp add: MsgGetBlocks_VVSDecode_def)

lemma MsgGetBlocks_VVSDecode_count_fails:
  "ReadUint32 r = (Inr v, r1) \<Longrightarrow> ReadVarInt r1 pver = (Inl e, r2) \<Longrightarrow>
   MsgGetBlocks_VVSDecode msg r pver enc =
     \<lparr>err = Some e, receiver = msg\<lparr>MsgGetBlocks.ProtocolVersion := v\<rparr>,
      unread = r2, made = []\<rparr>"
  by (simp add: MsgGetBlocks_VVSDecode_def)

lemma MsgGetBlocks_VVSDecode_too_many:
  "ReadUint32 r = (Inr v, r1) \<Longrightarrow> ReadVarInt r1 pver = (Inr count, r2) \<Longrightarrow>
   MaxBlockLocatorsPerMsg < unat count \<Longrightarrow>
   MsgGetBlocks_VVSDecode msg r pver enc =
     \<lparr>err = Some (messageError ''MsgGetBlocks.VVSDecode''
                   (''too many block locator hashes for message [count '' @
                    decimal (unat count) @ '', max '' @
                    decimal MaxBlockLocatorsPerMsg @ '']'')),
      receiver = msg\<lparr>MsgGetBlocks.ProtocolVersion := v\<rparr>,
      unread = r2, made = []\<rparr>"
  by (simp add: MsgGetBlocks_VVSDecode_def count_check)

lemma MsgGetBlocks_VVSDecode_bounded:
  assumes "ReadUint32 r = (Inr v, r1)" "ReadVarInt r1 pver = (Inr count, r2)"
    "unat count \<le> MaxBlockLocatorsPerMsg"
  shows "MsgGetBlocks_VVSDecode msg r pver enc =
     (if unat count \<le> length r2 div 32
      then (case ReadNBytes (drop (32 * unat count) r2) (Rep_Hash (MsgGetBlocks.HashStop msg))
                   HashLength of
              (e, bs, r4) \<Rightarrow>
                \<lparr>err = e,
                 receiver = msg\<lparr>MsgGetBlocks.ProtocolVersion := v,
                   MsgGetBlocks.BlockLocatorHashes := map Some (hashes_of (unat count) r2),
                   MsgGetBlocks.HashStop := to_Hash bs\<rparr>,
                 unread = r4, made = [unat count, unat count]\<rparr>)
      else \<lparr>err = Some (if length r2 mod 32 = 0 then EOF else ErrUnexpectedEOF),
            receiver = msg\<lparr>MsgGetBlocks.ProtocolVersion := v,
              MsgGetBlocks.BlockLocatorHashes := map Some (hashes_of (length r2 div 32) r2)\<rparr>,
            unread = [], made = [unat count, unat count]\<rparr>)"
proof -
  let ?m = "msg\<lparr>MsgGetBlocks.ProtocolVersion := v, MsgGetBlocks.BlockLocatorHashes := []\<rparr>"
  have loop: "MsgGetBlocks_decode_hashes 0 (unat count) r2 (replicate (unat count) zero_Hash) ?m =
     (if unat count - 0 \<le> length r2 div 32
      then (None,
            ?m\<lparr>MsgGetBlocks.BlockLocatorHashes :=
                  MsgGetBlocks.BlockLocatorHashes ?m @ map Some (hashes_of (unat count - 0) r2)\<rparr>,
            drop (32 * (unat count - 0)) r2)
      else (Some (if length r2 mod 32 = 0 then EOF else ErrUnexpectedEOF),
            ?m\<lparr>MsgGetBlocks.BlockLocatorHashes :=
                  MsgGetBlocks.BlockLocatorHashes ?m @ map Some (hashes_of (length r2 div 32) r2)\<rparr>,
            []))"
    using assms(3) by (intro MsgGetBlocks_decode_hashes_run) simp_all
  have ok: "\<not> count > of_nat MaxBlockLocatorsPerMsg"
    using assms(3) by (simp add: count_check)
  show ?thesis
    unfolding MsgGetBlocks_VVSDecode_def
    by (simp add: assms(1,2) ok loop Let_def split: prod.split)
qed

text \<open>A stream that holds the count's hashes and the stop hash decodes without error;
  a shorter one fails with a read error.\<close>

lemma MsgGetBlocks_VVSDecode_complete:
  assumes "ReadUint32 r = (Inr v, r1)" "ReadVarInt r1 pver = (Inr count, r2)"
    "unat count \<le> MaxBlockLocatorsPerMsg" "32 * unat count + 32 \<le> length r2"
  shows "MsgGetBlocks_VVSDecode msg r pver enc =
     \<lparr>err = None,
      receiver = msg\<lparr>MsgGetBlocks.ProtocolVersion := v,
        MsgGetBlocks.BlockLocatorHashes := map Some (hashes_of (unat count) r2),
        MsgGetBlocks.HashStop := to_Hash (take 32 (drop (32 * unat count) r2))\<rparr>,
      unread = drop 32 (drop (32 * unat count) r2), made = [unat count, unat count]\<rparr>"
proof -
  have "unat count \<le> length r2 div 32" using assms(4) by (simp add: less_eq_div_iff_mult_less_eq)
  moreover have "32 \<le> length (drop (32 * unat count) r2)" using assms(4) by simp
  ultimately show ?thesis
    unfolding MsgGetBlocks_VVSDecode_bounded [OF assms(1-3)]
    by (simp add: ReadNBytes_full)
qed

lemma MsgGetBlocks_VVSDecode_cut:
  assumes "ReadUint32 r = (Inr v, r1)" "ReadVarInt r1 pver = (Inr count, r2)"
    "unat count \<le> MaxBlockLocatorsPerMsg" "length r2 < 32 * unat count + 32"
  shows "err (MsgGetBlocks_VVSDecode msg r pver enc) \<in> {Some EOF, Some ErrUnexpectedEOF}"
    and "MsgGetBlocks.ProtocolVersion (receiver (MsgGetBlocks_VVSDecode msg r pver enc)) = v"
    and "MsgGetBlocks.BlockLocatorHashes (receiver (MsgGetBlocks_VVSDecode msg r pver enc)) =
      map Some (hashes_of (min (unat count) (length r2 div 32)) r2)"
proof -
  let ?d = "MsgGetBlocks_VVSDecode msg r pver enc"
  have "err ?d \<in> {Some EOF, Some ErrUnexpectedEOF} \<and>
    MsgGetBlocks.ProtocolVersion (receiver ?d) = v \<and>
    MsgGetBlocks.BlockLocatorHashes (receiver ?d) =
      map Some (hashes_of (min (unat count) (length r2 div 32)) r2)"
  proof (cases "unat count \<le> length r2 div 32")
    case True
    then have "32 * unat count \<le> length r2" by (simp add: less_eq_div_iff_mult_less_eq)
    with assms(4) have "length (drop (32 * unat count) r2) < 32" by simp
    with True show ?thesis
      unfolding MsgGetBlocks_VVSDecode_bounded [OF assms(1-3)]
      by (simp add: ReadNBytes_short min_absorb1)
  next
    case False
    then show ?thesis
      unfolding MsgGetBlocks_VVSDecode_bounded [OF assms(1-3)]
      by (simp add: min_absorb2)
  qed
  then show "err ?d \<in> {Some EOF, Some ErrUnexpectedEOF}"
    and "MsgGetBlocks.ProtocolVersion (receiver ?d) = v"
    and "MsgGetBlocks.BlockLocatorHashes (receiver ?d) =
      map Some (hashes_of (min (unat count) (length r2 div 32)) r2)"
    by simp_all
qed

text \<open>The error of \<^verbatim>\<open>VVSDecode\<close> is a read error or the error of the count check.\<close>

lemma MsgGetBlocks_VVSDecode_errors:
  "err (MsgGetBlocks_VVSDecode msg r pver enc) = Some e \<Longrightarrow>
   e = EOF \<or> e = ErrUnexpectedEOF \<or>
   (\<exists>desc. e = messageError ''MsgGetBlocks.VVSDecode'' desc)"
proof (cases r pver rule: declared_cases)
  case (version e' r1)
  assume "err (MsgGetBlocks_VVSDecode msg r pver enc) = Some e"
  with version(1) ReadUint32_error [OF version(1)] show ?thesis
    by (auto simp add: MsgGetBlocks_VVSDecode_version_fails)
next
  case (count v r1 e' r2)
  assume "err (MsgGetBlocks_VVSDecode msg r pver enc) = Some e"
  with count(1,2) ReadVarInt_error [OF count(2)] show ?thesis
    by (auto simp add: MsgGetBlocks_VVSDecode_count_fails)
next
  case (both v r1 count r2)
  assume e: "err (MsgGetBlocks_VVSDecode msg r pver enc) = Some e"
  show ?thesis
  proof (cases "unat count \<le> MaxBlockLocatorsPerMsg")
    case False
    with e both(1,2) show ?thesis
      by (auto simp add: MsgGetBlocks_VVSDecode_too_many)
  next
    case True
    show ?thesis
    proof (cases "32 * unat count + 32 \<le> length r2")
      case long: True
      with e show ?thesis
        by (simp add: MsgGetBlocks_VVSDecode_complete [OF both(1,2) True long])
    next
      case False
      then have "length r2 < 32 * unat count + 32" by simp
      from MsgGetBlocks_VVSDecode_cut(1) [OF both(1,2) True this, of msg enc] e show ?thesis
        by auto
    qed
  qed
qed

text \<open>A decoding without error: the stream was complete, and every field of the
  receiver comes from the stream.\<close>

lemma MsgGetBlocks_VVSDecode_success:
  assumes "err (MsgGetBlocks_VVSDecode msg r pver enc) = None"
  obtains v count r2 where "declared r pver = Some (v, count, r2)"
    "unat count \<le> MaxBlockLocatorsPerMsg"
    "\<forall>m. MsgGetBlocks_VVSDecode m r pver enc =
       \<lparr>err = None,
        receiver = m\<lparr>MsgGetBlocks.ProtocolVersion := v,
          MsgGetBlocks.BlockLocatorHashes := map Some (hashes_of (unat count) r2),
          MsgGetBlocks.HashStop := to_Hash (take 32 (drop (32 * unat count) r2))\<rparr>,
        unread = drop 32 (drop (32 * unat count) r2), made = [unat count, unat count]\<rparr>"
proof (cases r pver rule: declared_cases)
  case (version e' r1)
  with assms show ?thesis by (simp add: MsgGetBlocks_VVSDecode_version_fails)
next
  case (count v r1 e' r2)
  with assms show ?thesis by (simp add: MsgGetBlocks_VVSDecode_count_fails)
next
  case (both v r1 count r2)
  have le: "unat count \<le> MaxBlockLocatorsPerMsg"
  proof (rule ccontr)
    assume "\<not> ?thesis"
    with assms both(1,2) show False by (simp add: MsgGetBlocks_VVSDecode_too_many)
  qed
  have long: "32 * unat count + 32 \<le> length r2"
  proof (rule ccontr)
    assume "\<not> ?thesis"
    then have "length r2 < 32 * unat count + 32" by simp
    from MsgGetBlocks_VVSDecode_cut(1) [OF both(1,2) le this, of msg enc] assms show False
      by simp
  qed
  show ?thesis
    by (rule that [OF both(3) le]) (simp add: MsgGetBlocks_VVSDecode_complete [OF both(1,2) le long])
qed





lemma MsgGetBlocks_decode_encoded:
  assumes "length hs \<le> MaxBlockLocatorsPerMsg"
  shows "MsgGetBlocks_VVSDecode m0
     (LittleEndian_bytes 4 v @ VarInt_bytes (of_nat (length hs)) @ concat (map Rep_Hash hs) @
      Rep_Hash stop) pver enc =
     \<lparr>err = None,
      receiver = m0\<lparr>MsgGetBlocks.ProtocolVersion := v,
        MsgGetBlocks.BlockLocatorHashes := map Some hs,
        MsgGetBlocks.HashStop := stop\<rparr>,
      unread = [], made = [length hs, length hs]\<rparr>"
proof -
  let ?r2 = "concat (map Rep_Hash hs) @ Rep_Hash stop"
  have n: "unat (of_nat (length hs) :: uint64) = length hs"
    using assms by (rule unat_count)
  have a: "ReadUint32 (LittleEndian_bytes 4 v @ VarInt_bytes (of_nat (length hs)) @ ?r2) =
    (Inr v, VarInt_bytes (of_nat (length hs)) @ ?r2)"
    by (rule ReadUint32_WriteUint32)
  have b: "ReadVarInt (VarInt_bytes (of_nat (length hs)) @ ?r2) pver =
    (Inr (of_nat (length hs)), ?r2)"
    by (rule ReadVarInt_VarInt_bytes)
  have c: "unat (of_nat (length hs) :: uint64) \<le> MaxBlockLocatorsPerMsg"
    using assms n by simp
  show ?thesis
    unfolding MsgGetBlocks_VVSDecode_bounded [OF a b c] n
    by (simp add: hashes_of_concat ReadNBytes_full)
qed

text \<open>The payload of 37 zero bytes: version 0, no locators, zero stop hash.\<close>

lemma MsgGetBlocks_decode_zeros:
  "MsgGetBlocks_VVSDecode m (replicate 37 0) pver enc =
     \<lparr>err = None,
      receiver = m\<lparr>MsgGetBlocks.ProtocolVersion := 0, MsgGetBlocks.BlockLocatorHashes := [],
        MsgGetBlocks.HashStop := zero_Hash\<rparr>,
      unread = [], made = [0, 0]\<rparr>"
proof -
  have bytes: "LittleEndian_bytes 4 (0 :: uint32) @ VarInt_bytes (of_nat (length ([] :: Hash list))) @
      concat (map Rep_Hash []) @ Rep_Hash zero_Hash = replicate 37 0"
    by (simp add: LittleEndian_bytes_4 VarInt_bytes_0 numeral_eq_Suc)
  have "length ([] :: Hash list) \<le> MaxBlockLocatorsPerMsg" by simp
  from MsgGetBlocks_decode_encoded [OF this, of m 0 zero_Hash pver enc]
  show ?thesis unfolding bytes by simp
qed

section \<open>The two message types side by side\<close>

lemma write_hashes_same: "MsgGetBlocks_write_hashes hashes w = MsgGetHeaders_write_hashes hashes w"
  by (induction hashes arbitrary: w) (simp_all split: option.splits prod.splits)

lemma MsgGetHeaders_eqI:
  "MsgGetHeaders.ProtocolVersion a = MsgGetHeaders.ProtocolVersion b \<Longrightarrow>
   MsgGetHeaders.BlockLocatorHashes a = MsgGetHeaders.BlockLocatorHashes b \<Longrightarrow>
   MsgGetHeaders.HashStop a = MsgGetHeaders.HashStop b \<Longrightarrow> a = (b :: MsgGetHeaders)"
  by simp

lemma MsgGetBlocks_eqI:
  "MsgGetBlocks.ProtocolVersion a = MsgGetBlocks.ProtocolVersion b \<Longrightarrow>
   MsgGetBlocks.BlockLocatorHashes a = MsgGetBlocks.BlockLocatorHashes b \<Longrightarrow>
   MsgGetBlocks.HashStop a = MsgGetBlocks.HashStop b \<Longrightarrow> a = (b :: MsgGetBlocks)"
  by simp

section \<open>The properties\<close>

text \<open>
  \<^bold>\<open>C1.\<close> Round trip: a getheaders message with at most 500 locators, each entry a
  hash, is encoded without error into a buffer, and decoding the bytes written, into
  any receiver, returns no error, consumes all bytes and leaves a receiver equal to the
  message in every field: version, locator hashes in order, stop hash.
\<close>

theorem encode_decode_round_trip:
  assumes "length (MsgGetHeaders.BlockLocatorHashes r) \<le> MaxBlockLocatorsPerMsg"
    and "None \<notin> set (MsgGetHeaders.BlockLocatorHashes r)"
  shows "fst (MsgGetHeaders_VVSEncode r Buffer pver enc) = None \<and>
    MsgGetHeaders_VVSDecode m0
      (written (snd (MsgGetHeaders_VVSEncode r Buffer pver enc))) pver' enc' =
      \<lparr>err = None, receiver = r, unread = [],
       made = [length (MsgGetHeaders.BlockLocatorHashes r),
               length (MsgGetHeaders.BlockLocatorHashes r)]\<rparr>"
proof -
  define hs where "hs = map the (MsgGetHeaders.BlockLocatorHashes r)"
  have hs: "MsgGetHeaders.BlockLocatorHashes r = map Some hs"
    unfolding hs_def using assms(2) by (rule no_nil_map_Some)
  then have len: "length hs \<le> MaxBlockLocatorsPerMsg" using assms(1) by simp
  have enc: "MsgGetHeaders_VVSEncode r Buffer pver enc =
     (None, Buffer\<lparr>written := written Buffer @
        LittleEndian_bytes 4 (MsgGetHeaders.ProtocolVersion r) @
        VarInt_bytes (of_nat (length hs)) @ concat (map Rep_Hash hs) @
        Rep_Hash (MsgGetHeaders.HashStop r)\<rparr>)"
    by (rule MsgGetHeaders_VVSEncode_Buffer [OF len hs]) (simp add: Buffer_def)
  have same: "m0\<lparr>MsgGetHeaders.ProtocolVersion := MsgGetHeaders.ProtocolVersion r,
        MsgGetHeaders.BlockLocatorHashes := map Some hs,
        MsgGetHeaders.HashStop := MsgGetHeaders.HashStop r\<rparr> = r"
    by (rule MsgGetHeaders_eqI) (simp_all add: hs)
  show ?thesis
    unfolding enc
    by (simp add: Buffer_def MsgGetHeaders_decode_encoded [OF len] same hs)
qed

theorem encode_decode_round_trip_witness:
  "length (MsgGetHeaders.BlockLocatorHashes
     \<lparr>MsgGetHeaders.ProtocolVersion = 70002,
      BlockLocatorHashes = [Some (to_Hash (replicate 32 1)), Some (to_Hash (replicate 32 2))],
      HashStop = zero_Hash\<rparr>) \<le> MaxBlockLocatorsPerMsg \<and>
   None \<notin> set (MsgGetHeaders.BlockLocatorHashes
     \<lparr>MsgGetHeaders.ProtocolVersion = 70002,
      BlockLocatorHashes = [Some (to_Hash (replicate 32 1)), Some (to_Hash (replicate 32 2))],
      HashStop = zero_Hash\<rparr>) \<and>
   fst (MsgGetHeaders_VVSEncode
     \<lparr>MsgGetHeaders.ProtocolVersion = 70002,
      BlockLocatorHashes = [Some (to_Hash (replicate 32 1)), Some (to_Hash (replicate 32 2))],
      HashStop = zero_Hash\<rparr> Buffer 70002 ()) = None \<and>
   MsgGetHeaders_VVSDecode NewMsgGetHeaders
     (written (snd (MsgGetHeaders_VVSEncode
       \<lparr>MsgGetHeaders.ProtocolVersion = 70002,
        BlockLocatorHashes = [Some (to_Hash (replicate 32 1)), Some (to_Hash (replicate 32 2))],
        HashStop = zero_Hash\<rparr> Buffer 70002 ()))) 70002 () =
     \<lparr>err = None,
      receiver = \<lparr>MsgGetHeaders.ProtocolVersion = 70002,
        BlockLocatorHashes = [Some (to_Hash (replicate 32 1)), Some (to_Hash (replicate 32 2))],
        HashStop = zero_Hash\<rparr>,
      unread = [], made = [2, 2]\<rparr>"
  using encode_decode_round_trip [of
    "\<lparr>MsgGetHeaders.ProtocolVersion = 70002,
      BlockLocatorHashes = [Some (to_Hash (replicate 32 1)), Some (to_Hash (replicate 32 2))],
      HashStop = zero_Hash\<rparr>" 70002 "()" NewMsgGetHeaders 70002 "()"]
  by (simp add: MaxBlockLocatorsPerMsg_def)

text \<open>
  \<^bold>\<open>C2.\<close> When the stream declares a CompactSize count above 500, \<^verbatim>\<open>VVSDecode\<close>
  returns the \<^verbatim>\<open>MessageError\<close> of its count check; at that point no \<^verbatim>\<open>make\<close> has
  been called, no byte after the count has been read, and the receiver's locator list
  is untouched (only the version has been stored). When the declared count is at most
  500, the error of the count check is not returned, and the two \<^verbatim>\<open>make\<close> calls are
  made with the declared count. This holds for both message types.
\<close>

theorem count_checked_before_allocation:
  assumes "declared r pver = Some (v, count, r2)"
  shows
   "(MaxBlockLocatorsPerMsg < unat count \<longrightarrow>
      MsgGetHeaders_VVSDecode gh r pver enc =
        \<lparr>err = Some (messageError ''MsgGetHeaders.VVSDecode''
                 (''too many block locator hashes for message [count '' @
                  decimal (unat count) @ '', max '' @ decimal MaxBlockLocatorsPerMsg @ '']'')),
         receiver = gh\<lparr>MsgGetHeaders.ProtocolVersion := v\<rparr>, unread = r2, made = []\<rparr> \<and>
      MsgGetBlocks_VVSDecode gb r pver enc =
        \<lparr>err = Some (messageError ''MsgGetBlocks.VVSDecode''
                 (''too many block locator hashes for message [count '' @
                  decimal (unat count) @ '', max '' @ decimal MaxBlockLocatorsPerMsg @ '']'')),
         receiver = gb\<lparr>MsgGetBlocks.ProtocolVersion := v\<rparr>, unread = r2, made = []\<rparr>) \<and>
    (unat count \<le> MaxBlockLocatorsPerMsg \<longrightarrow>
      (\<forall>desc. err (MsgGetHeaders_VVSDecode gh r pver enc) \<noteq>
         Some (messageError ''MsgGetHeaders.VVSDecode'' desc)) \<and>
      made (MsgGetHeaders_VVSDecode gh r pver enc) = [unat count, unat count] \<and>
      (\<forall>desc. err (MsgGetBlocks_VVSDecode gb r pver enc) \<noteq>
         Some (messageError ''MsgGetBlocks.VVSDecode'' desc)) \<and>
      made (MsgGetBlocks_VVSDecode gb r pver enc) = [unat count, unat count])"
proof -
  from assms obtain r1 where
    a: "ReadUint32 r = (Inr v, r1)" and b: "ReadVarInt r1 pver = (Inr count, r2)"
    by (rule declared_SomeD)
  have small: "err (MsgGetHeaders_VVSDecode gh r pver enc) \<in> {None, Some EOF, Some ErrUnexpectedEOF} \<and>
      made (MsgGetHeaders_VVSDecode gh r pver enc) = [unat count, unat count] \<and>
      err (MsgGetBlocks_VVSDecode gb r pver enc) \<in> {None, Some EOF, Some ErrUnexpectedEOF} \<and>
      made (MsgGetBlocks_VVSDecode gb r pver enc) = [unat count, unat count]"
    if le: "unat count \<le> MaxBlockLocatorsPerMsg"
    unfolding MsgGetHeaders_VVSDecode_bounded [OF a b le]
      MsgGetBlocks_VVSDecode_bounded [OF a b le]
    by (simp add: ReadNBytes_def ReadFull_def split: prod.split)
  show ?thesis
  proof (intro conjI impI)
    assume "MaxBlockLocatorsPerMsg < unat count"
    then show "MsgGetHeaders_VVSDecode gh r pver enc =
        \<lparr>err = Some (messageError ''MsgGetHeaders.VVSDecode''
                 (''too many block locator hashes for message [count '' @
                  decimal (unat count) @ '', max '' @ decimal MaxBlockLocatorsPerMsg @ '']'')),
         receiver = gh\<lparr>MsgGetHeaders.ProtocolVersion := v\<rparr>, unread = r2, made = []\<rparr>"
      and "MsgGetBlocks_VVSDecode gb r pver enc =
        \<lparr>err = Some (messageError ''MsgGetBlocks.VVSDecode''
                 (''too many block locator hashes for message [count '' @
                  decimal (unat count) @ '', max '' @ decimal MaxBlockLocatorsPerMsg @ '']'')),
         receiver = gb\<lparr>MsgGetBlocks.ProtocolVersion := v\<rparr>, unread = r2, made = []\<rparr>"
      by (rule MsgGetHeaders_VVSDecode_too_many [OF a b],
          rule MsgGetBlocks_VVSDecode_too_many [OF a b])
  next
    assume le: "unat count \<le> MaxBlockLocatorsPerMsg"
    from small [OF le]
    show "\<forall>desc. err (MsgGetHeaders_VVSDecode gh r pver enc) \<noteq>
         Some (messageError ''MsgGetHeaders.VVSDecode'' desc)"
      and "\<forall>desc. err (MsgGetBlocks_VVSDecode gb r pver enc) \<noteq>
         Some (messageError ''MsgGetBlocks.VVSDecode'' desc)"
      by (auto simp add: messageError_def)
    from small [OF le]
    show "made (MsgGetHeaders_VVSDecode gh r pver enc) = [unat count, unat count]"
      and "made (MsgGetBlocks_VVSDecode gb r pver enc) = [unat count, unat count]"
      by simp_all
  qed
qed

theorem count_checked_before_allocation_witness:
  "declared [1, 0, 0, 0, 0xfe, 0x80, 0x96, 0x98, 0] 0 = Some (1, 10000000, []) \<and>
   MaxBlockLocatorsPerMsg < unat (10000000 :: uint64) \<and>
   MsgGetHeaders_VVSDecode NewMsgGetHeaders [1, 0, 0, 0, 0xfe, 0x80, 0x96, 0x98, 0] 0 () =
     \<lparr>err = Some (MessageError ''MsgGetHeaders.VVSDecode''
              ''too many block locator hashes for message [count 10000000, max 500]''),
      receiver = NewMsgGetHeaders\<lparr>MsgGetHeaders.ProtocolVersion := 1\<rparr>,
      unread = [], made = []\<rparr> \<and>
   MsgGetBlocks_VVSDecode
     \<lparr>MsgGetBlocks.ProtocolVersion = 7, BlockLocatorHashes = [], HashStop = zero_Hash\<rparr>
     [1, 0, 0, 0, 0xfe, 0x80, 0x96, 0x98, 0] 0 () =
     \<lparr>err = Some (MessageError ''MsgGetBlocks.VVSDecode''
              ''too many block locator hashes for message [count 10000000, max 500]''),
      receiver = \<lparr>MsgGetBlocks.ProtocolVersion = 1, BlockLocatorHashes = [],
                  HashStop = zero_Hash\<rparr>,
      unread = [], made = []\<rparr> \<and>
   declared (replicate 37 0) 0 = Some (0, 0, replicate 32 0) \<and>
   unat (0 :: uint64) \<le> MaxBlockLocatorsPerMsg \<and>
   (\<forall>desc. err (MsgGetHeaders_VVSDecode NewMsgGetHeaders (replicate 37 0) 0 ()) \<noteq>
      Some (messageError ''MsgGetHeaders.VVSDecode'' desc)) \<and>
   made (MsgGetHeaders_VVSDecode NewMsgGetHeaders (replicate 37 0) 0 ()) = [0, 0]"
proof -
  have big: "declared [1, 0, 0, 0, 0xfe, 0x80, 0x96, 0x98, 0] 0 = Some (1, 10000000, [])"
    by (simp add: declared_def ReadUint32_def ReadVarInt_def ReadFull_def)
  have over: "MaxBlockLocatorsPerMsg < unat (10000000 :: uint64)"
    by (simp add: MaxBlockLocatorsPerMsg_def)
  have bytes: "LittleEndian_bytes 4 (0 :: uint32) @ VarInt_bytes 0 @ replicate 32 0 =
      replicate 37 0"
    by (simp add: LittleEndian_bytes_4 VarInt_bytes_0 numeral_eq_Suc)
  have none: "declared (replicate 37 0) 0 = Some (0, 0, replicate 32 0)"
    using declared_encoded [of 0 0 "replicate 32 0" 0] unfolding bytes .
  have under: "unat (0 :: uint64) \<le> MaxBlockLocatorsPerMsg" by simp
  have digits: "decimal 10000000 = ''10000000''" "decimal 500 = ''500''"
    by (simp_all add: decimal.simps)
  note t1 = count_checked_before_allocation [OF big, of NewMsgGetHeaders "()"
      "\<lparr>MsgGetBlocks.ProtocolVersion = 7, BlockLocatorHashes = [], HashStop = zero_Hash\<rparr>"]
  note t2 = count_checked_before_allocation [OF none, of NewMsgGetHeaders "()"
      "\<lparr>MsgGetBlocks.ProtocolVersion = 7, BlockLocatorHashes = [], HashStop = zero_Hash\<rparr>"]
  from t1 over have
    "MsgGetHeaders_VVSDecode NewMsgGetHeaders [1, 0, 0, 0, 0xfe, 0x80, 0x96, 0x98, 0] 0 () =
     \<lparr>err = Some (MessageError ''MsgGetHeaders.VVSDecode''
              ''too many block locator hashes for message [count 10000000, max 500]''),
      receiver = NewMsgGetHeaders\<lparr>MsgGetHeaders.ProtocolVersion := 1\<rparr>,
      unread = [], made = []\<rparr>"
    and "MsgGetBlocks_VVSDecode
     \<lparr>MsgGetBlocks.ProtocolVersion = 7, BlockLocatorHashes = [], HashStop = zero_Hash\<rparr>
     [1, 0, 0, 0, 0xfe, 0x80, 0x96, 0x98, 0] 0 () =
     \<lparr>err = Some (MessageError ''MsgGetBlocks.VVSDecode''
              ''too many block locator hashes for message [count 10000000, max 500]''),
      receiver = \<lparr>MsgGetBlocks.ProtocolVersion = 1, BlockLocatorHashes = [],
                  HashStop = zero_Hash\<rparr>,
      unread = [], made = []\<rparr>"
    by (simp_all add: messageError_def digits MaxBlockLocatorsPerMsg_def)
  moreover from t2 under have
    "\<forall>desc. err (MsgGetHeaders_VVSDecode NewMsgGetHeaders (replicate 37 0) 0 ()) \<noteq>
      Some (messageError ''MsgGetHeaders.VVSDecode'' desc)"
    and "made (MsgGetHeaders_VVSDecode NewMsgGetHeaders (replicate 37 0) 0 ()) = [0, 0]"
    by simp_all
  ultimately show ?thesis using big over none under by simp
qed

text \<open>
  \<^bold>\<open>C3.\<close> \<^verbatim>\<open>AddBlockLocatorHash\<close> on a message that already holds
  \<^verbatim>\<open>MaxBlockLocatorsPerMsg\<close> (500) locators returns the \<^verbatim>\<open>MessageError\<close> and leaves
  the message as it was; on a message with fewer it returns no error and appends exactly
  the given hash. So 501 calls on a message without locators return no error 500 times
  and the error on the last call, and leave the first 500 hashes in the message. This
  holds for both message types.
\<close>

theorem AddBlockLocatorHash_bound:
  "(length (MsgGetHeaders.BlockLocatorHashes gh) = MaxBlockLocatorsPerMsg \<longrightarrow>
      (\<exists>e. MsgGetHeaders_AddBlockLocatorHash gh hash = (Some e, gh) \<and> ProtocolViolation e)) \<and>
   (length (MsgGetHeaders.BlockLocatorHashes gh) < MaxBlockLocatorsPerMsg \<longrightarrow>
      MsgGetHeaders_AddBlockLocatorHash gh hash =
        (None, gh\<lparr>MsgGetHeaders.BlockLocatorHashes :=
                     MsgGetHeaders.BlockLocatorHashes gh @ [hash]\<rparr>)) \<and>
   (MsgGetHeaders.BlockLocatorHashes gh = [] \<and> length hashes = MaxBlockLocatorsPerMsg + 1 \<longrightarrow>
      (\<exists>e. MsgGetHeaders_add_each gh hashes =
         (replicate MaxBlockLocatorsPerMsg None @ [Some e],
          gh\<lparr>MsgGetHeaders.BlockLocatorHashes := take MaxBlockLocatorsPerMsg hashes\<rparr>) \<and>
         ProtocolViolation e) \<and>
      length (MsgGetHeaders.BlockLocatorHashes (snd (MsgGetHeaders_add_each gh hashes))) =
        MaxBlockLocatorsPerMsg) \<and>
   (length (MsgGetBlocks.BlockLocatorHashes gb) = MaxBlockLocatorsPerMsg \<longrightarrow>
      (\<exists>e. MsgGetBlocks_AddBlockLocatorHash gb hash = (Some e, gb) \<and> ProtocolViolation e)) \<and>
   (length (MsgGetBlocks.BlockLocatorHashes gb) < MaxBlockLocatorsPerMsg \<longrightarrow>
      MsgGetBlocks_AddBlockLocatorHash gb hash =
        (None, gb\<lparr>MsgGetBlocks.BlockLocatorHashes :=
                     MsgGetBlocks.BlockLocatorHashes gb @ [hash]\<rparr>)) \<and>
   (MsgGetBlocks.BlockLocatorHashes gb = [] \<and> length hashes = MaxBlockLocatorsPerMsg + 1 \<longrightarrow>
      (\<exists>e. MsgGetBlocks_add_each gb hashes =
         (replicate MaxBlockLocatorsPerMsg None @ [Some e],
          gb\<lparr>MsgGetBlocks.BlockLocatorHashes := take MaxBlockLocatorsPerMsg hashes\<rparr>) \<and>
         ProtocolViolation e) \<and>
      length (MsgGetBlocks.BlockLocatorHashes (snd (MsgGetBlocks_add_each gb hashes))) =
        MaxBlockLocatorsPerMsg)"
proof -
  have full_gh: "\<exists>e. MsgGetHeaders_AddBlockLocatorHash m hash' = (Some e, m) \<and> ProtocolViolation e"
    if "length (MsgGetHeaders.BlockLocatorHashes m) = MaxBlockLocatorsPerMsg" for m hash'
    using that by (simp add: MsgGetHeaders_Add_full messageError_def)
  have full_gb: "\<exists>e. MsgGetBlocks_AddBlockLocatorHash m hash' = (Some e, m) \<and> ProtocolViolation e"
    if "length (MsgGetBlocks.BlockLocatorHashes m) = MaxBlockLocatorsPerMsg" for m hash'
    using that by (simp add: MsgGetBlocks_Add_full messageError_def)
  have split: "hashes = take MaxBlockLocatorsPerMsg hashes @ [hashes ! MaxBlockLocatorsPerMsg]"
    if "length hashes = MaxBlockLocatorsPerMsg + 1"
    using that by (metis Suc_eq_plus1 lessI take_Suc_conv_app_nth take_all order_refl)
  have many_gh: "(\<exists>e. MsgGetHeaders_add_each gh hashes =
         (replicate MaxBlockLocatorsPerMsg None @ [Some e],
          gh\<lparr>MsgGetHeaders.BlockLocatorHashes := take MaxBlockLocatorsPerMsg hashes\<rparr>) \<and>
         ProtocolViolation e) \<and>
      length (MsgGetHeaders.BlockLocatorHashes (snd (MsgGetHeaders_add_each gh hashes))) =
        MaxBlockLocatorsPerMsg"
    if e: "MsgGetHeaders.BlockLocatorHashes gh = []" and l: "length hashes = MaxBlockLocatorsPerMsg + 1"
  proof -
    let ?hs = "take MaxBlockLocatorsPerMsg hashes"
    let ?m = "gh\<lparr>MsgGetHeaders.BlockLocatorHashes := ?hs\<rparr>"
    have len: "length ?hs = MaxBlockLocatorsPerMsg" using l by simp
    have first: "MsgGetHeaders_add_each gh ?hs = (replicate MaxBlockLocatorsPerMsg None, ?m)"
      using MsgGetHeaders_add_each_room [of gh ?hs] e len by simp
    obtain e' where last: "MsgGetHeaders_AddBlockLocatorHash ?m (hashes ! MaxBlockLocatorsPerMsg) = (Some e', ?m)"
      and pv: "ProtocolViolation e'"
      using full_gh [of ?m] len by auto
    have "MsgGetHeaders_add_each gh hashes = (replicate MaxBlockLocatorsPerMsg None @ [Some e'], ?m)"
      by (subst split [OF l]) (simp add: MsgGetHeaders_add_each_append first last)
    with pv len show ?thesis by auto
  qed
  have many_gb: "(\<exists>e. MsgGetBlocks_add_each gb hashes =
         (replicate MaxBlockLocatorsPerMsg None @ [Some e],
          gb\<lparr>MsgGetBlocks.BlockLocatorHashes := take MaxBlockLocatorsPerMsg hashes\<rparr>) \<and>
         ProtocolViolation e) \<and>
      length (MsgGetBlocks.BlockLocatorHashes (snd (MsgGetBlocks_add_each gb hashes))) =
        MaxBlockLocatorsPerMsg"
    if e: "MsgGetBlocks.BlockLocatorHashes gb = []" and l: "length hashes = MaxBlockLocatorsPerMsg + 1"
  proof -
    let ?hs = "take MaxBlockLocatorsPerMsg hashes"
    let ?m = "gb\<lparr>MsgGetBlocks.BlockLocatorHashes := ?hs\<rparr>"
    have len: "length ?hs = MaxBlockLocatorsPerMsg" using l by simp
    have first: "MsgGetBlocks_add_each gb ?hs = (replicate MaxBlockLocatorsPerMsg None, ?m)"
      using MsgGetBlocks_add_each_room [of gb ?hs] e len by simp
    obtain e' where last: "MsgGetBlocks_AddBlockLocatorHash ?m (hashes ! MaxBlockLocatorsPerMsg) = (Some e', ?m)"
      and pv: "ProtocolViolation e'"
      using full_gb [of ?m] len by auto
    have "MsgGetBlocks_add_each gb hashes = (replicate MaxBlockLocatorsPerMsg None @ [Some e'], ?m)"
      by (subst split [OF l]) (simp add: MsgGetBlocks_add_each_append first last)
    with pv len show ?thesis by auto
  qed
  show ?thesis
    using full_gh [of gh hash] full_gb [of gb hash] many_gh many_gb
      MsgGetHeaders_Add_ok [of gh hash] MsgGetBlocks_Add_ok [of gb hash]
    by blast
qed


theorem AddBlockLocatorHash_bound_witness:
  "length (MsgGetHeaders.BlockLocatorHashes
      (NewMsgGetHeaders\<lparr>MsgGetHeaders.BlockLocatorHashes := replicate 500 (Some zero_Hash)\<rparr>)) =
     MaxBlockLocatorsPerMsg \<and>
   (\<exists>e. MsgGetHeaders_AddBlockLocatorHash
       (NewMsgGetHeaders\<lparr>MsgGetHeaders.BlockLocatorHashes := replicate 500 (Some zero_Hash)\<rparr>)
       (Some zero_Hash) =
      (Some e, NewMsgGetHeaders\<lparr>MsgGetHeaders.BlockLocatorHashes := replicate 500 (Some zero_Hash)\<rparr>) \<and>
      ProtocolViolation e) \<and>
   length (MsgGetHeaders.BlockLocatorHashes NewMsgGetHeaders) < MaxBlockLocatorsPerMsg \<and>
   MsgGetHeaders_AddBlockLocatorHash NewMsgGetHeaders (Some zero_Hash) =
     (None, NewMsgGetHeaders\<lparr>MsgGetHeaders.BlockLocatorHashes := [Some zero_Hash]\<rparr>) \<and>
   length (replicate 501 (Some zero_Hash)) = MaxBlockLocatorsPerMsg + 1 \<and>
   (\<exists>e. MsgGetHeaders_add_each NewMsgGetHeaders (replicate 501 (Some zero_Hash)) =
      (replicate 500 None @ [Some e],
       NewMsgGetHeaders\<lparr>MsgGetHeaders.BlockLocatorHashes := replicate 500 (Some zero_Hash)\<rparr>) \<and>
      ProtocolViolation e) \<and>
   (\<exists>e. MsgGetBlocks_AddBlockLocatorHash
       \<lparr>MsgGetBlocks.ProtocolVersion = 1, BlockLocatorHashes = replicate 500 (Some zero_Hash),
        HashStop = zero_Hash\<rparr> (Some zero_Hash) =
      (Some e, \<lparr>MsgGetBlocks.ProtocolVersion = 1,
         BlockLocatorHashes = replicate 500 (Some zero_Hash), HashStop = zero_Hash\<rparr>) \<and>
      ProtocolViolation e) \<and>
   MsgGetBlocks_AddBlockLocatorHash
       \<lparr>MsgGetBlocks.ProtocolVersion = 1, BlockLocatorHashes = [], HashStop = zero_Hash\<rparr>
       (Some zero_Hash) =
     (None, \<lparr>MsgGetBlocks.ProtocolVersion = 1, BlockLocatorHashes = [Some zero_Hash],
        HashStop = zero_Hash\<rparr>) \<and>
   (\<exists>e. MsgGetBlocks_add_each
       \<lparr>MsgGetBlocks.ProtocolVersion = 1, BlockLocatorHashes = [], HashStop = zero_Hash\<rparr>
       (replicate 501 (Some zero_Hash)) =
      (replicate 500 None @ [Some e],
       \<lparr>MsgGetBlocks.ProtocolVersion = 1, BlockLocatorHashes = replicate 500 (Some zero_Hash),
        HashStop = zero_Hash\<rparr>) \<and>
      ProtocolViolation e)"
  using
    AddBlockLocatorHash_bound [of
      "NewMsgGetHeaders\<lparr>MsgGetHeaders.BlockLocatorHashes := replicate 500 (Some zero_Hash)\<rparr>"
      "Some zero_Hash" "[]"
      "\<lparr>MsgGetBlocks.ProtocolVersion = 1, BlockLocatorHashes = replicate 500 (Some zero_Hash),
        HashStop = zero_Hash\<rparr>"]
    AddBlockLocatorHash_bound [of NewMsgGetHeaders "Some zero_Hash" "replicate 501 (Some zero_Hash)"
      "\<lparr>MsgGetBlocks.ProtocolVersion = 1, BlockLocatorHashes = [], HashStop = zero_Hash\<rparr>"]
  by (simp add: MaxBlockLocatorsPerMsg_def NewMsgGetHeaders_def)

text \<open>
  \<^bold>\<open>C4.\<close> As amended: \<^verbatim>\<open>VVSDecode\<close> of a truncated stream whose declared count, when
  the stream is long enough to declare one, is at most 500 returns \<^verbatim>\<open>io.EOF\<close> or
  \<^verbatim>\<open>io.ErrUnexpectedEOF\<close> and does not panic. Decoding is done in place, so the caller
  sees the receiver as the call left it: when the stream is too short to declare a
  count, the locator list and the stop hash are as before the call; otherwise the version
  is the decoded one and the locator list holds exactly the locator hashes that the
  stream holds in full, up to the declared count, each of them 32 bytes of the stream.
  A hash that was read in part is never in the list. (The specification has it that
  the receiver shows nothing of a failed decoding and that every truncated stream gives
  a read error, also one that declares more than 500 locators; the two streams after
  the theorem show otherwise.)
\<close>

theorem truncated_stream_read_error:
  assumes "truncated r pver"
    and "\<forall>v count r2. declared r pver = Some (v, count, r2) \<longrightarrow>
           unat count \<le> MaxBlockLocatorsPerMsg"
  shows "err (MsgGetHeaders_VVSDecode msg r pver enc) \<in> {Some EOF, Some ErrUnexpectedEOF} \<and>
    (declared r pver = None \<longrightarrow>
       MsgGetHeaders.BlockLocatorHashes (receiver (MsgGetHeaders_VVSDecode msg r pver enc)) =
         MsgGetHeaders.BlockLocatorHashes msg \<and>
       MsgGetHeaders.HashStop (receiver (MsgGetHeaders_VVSDecode msg r pver enc)) =
         MsgGetHeaders.HashStop msg) \<and>
    (\<forall>v count r2. declared r pver = Some (v, count, r2) \<longrightarrow>
       MsgGetHeaders.ProtocolVersion (receiver (MsgGetHeaders_VVSDecode msg r pver enc)) = v \<and>
       MsgGetHeaders.BlockLocatorHashes (receiver (MsgGetHeaders_VVSDecode msg r pver enc)) =
         map Some (hashes_of (min (unat count) (length r2 div 32)) r2))"
proof (cases r pver rule: declared_cases)
  case (version e r1)
  with ReadUint32_error [OF version(1)] show ?thesis
    by (auto simp add: MsgGetHeaders_VVSDecode_version_fails)
next
  case (count v r1 e r2)
  with ReadVarInt_error [OF count(2)] show ?thesis
    by (auto simp add: MsgGetHeaders_VVSDecode_count_fails)
next
  case (both v r1 count r2)
  from assms(2) both(3) have le: "unat count \<le> MaxBlockLocatorsPerMsg" by blast
  from assms(1) both(3) have short: "length r2 < 32 * unat count + 32"
    by (simp add: truncated_def HashLength_def mult.commute)
  from MsgGetHeaders_VVSDecode_cut [OF both(1,2) le short, of msg enc] both(3)
  show ?thesis by simp
qed

theorem truncated_stream_read_error_witness:
  "truncated (1 # 0 # 0 # 0 # 2 # replicate 32 0xaa @ replicate 5 0xbb) 0 \<and>
   declared (1 # 0 # 0 # 0 # 2 # replicate 32 0xaa @ replicate 5 0xbb) 0 =
     Some (1, 2, replicate 32 0xaa @ replicate 5 0xbb) \<and>
   unat (2 :: uint64) \<le> MaxBlockLocatorsPerMsg \<and>
   err (MsgGetHeaders_VVSDecode NewMsgGetHeaders
     (1 # 0 # 0 # 0 # 2 # replicate 32 0xaa @ replicate 5 0xbb) 0 ()) \<in>
     {Some EOF, Some ErrUnexpectedEOF} \<and>
   MsgGetHeaders.ProtocolVersion (receiver (MsgGetHeaders_VVSDecode NewMsgGetHeaders
     (1 # 0 # 0 # 0 # 2 # replicate 32 0xaa @ replicate 5 0xbb) 0 ())) = 1 \<and>
   MsgGetHeaders.BlockLocatorHashes (receiver (MsgGetHeaders_VVSDecode NewMsgGetHeaders
     (1 # 0 # 0 # 0 # 2 # replicate 32 0xaa @ replicate 5 0xbb) 0 ())) =
     [Some (to_Hash (replicate 32 0xaa))]"
proof -
  let ?r = "1 # 0 # 0 # 0 # 2 # replicate 32 0xaa @ replicate 5 (0xbb :: byte)"
  have d: "declared ?r 0 = Some (1, 2, replicate 32 0xaa @ replicate 5 0xbb)"
    by (simp add: declared_def ReadUint32_def ReadVarInt_def ReadFull_def)
  have t: "truncated ?r 0"
    by (simp add: truncated_def d HashLength_def)
  have le: "unat (2 :: uint64) \<le> MaxBlockLocatorsPerMsg"
    by (simp add: MaxBlockLocatorsPerMsg_def)
  have all: "\<forall>v count r2. declared ?r 0 = Some (v, count, r2) \<longrightarrow>
      unat count \<le> MaxBlockLocatorsPerMsg"
    using le by (simp add: d)
  have one: "hashes_of (min (unat (2 :: uint64)) (length (replicate 32 (0xaa :: byte) @
      replicate 5 0xbb) div 32)) (replicate 32 0xaa @ replicate 5 0xbb) =
      [to_Hash (replicate 32 0xaa)]"
    by simp
  from truncated_stream_read_error [OF t all, of NewMsgGetHeaders "()"] d
  have "err (MsgGetHeaders_VVSDecode NewMsgGetHeaders ?r 0 ()) \<in>
      {Some EOF, Some ErrUnexpectedEOF}"
    and "MsgGetHeaders.ProtocolVersion (receiver (MsgGetHeaders_VVSDecode NewMsgGetHeaders
      ?r 0 ())) = 1"
    and "MsgGetHeaders.BlockLocatorHashes (receiver (MsgGetHeaders_VVSDecode NewMsgGetHeaders
      ?r 0 ())) = map Some (hashes_of (min (unat (2 :: uint64))
        (length (replicate 32 (0xaa :: byte) @ replicate 5 0xbb) div 32))
        (replicate 32 0xaa @ replicate 5 0xbb))"
    by blast+
  with t d le show ?thesis unfolding one by simp
qed

text \<open>The property as the specification states it fails on two truncated streams. The first declares two
  locators and ends five bytes into the second: the receiver, fresh from
  \<^verbatim>\<open>NewMsgGetHeaders\<close>, comes back with the new version and one of the two locators.
  The second declares 65535 locators and ends there: the error is the
  \<^verbatim>\<open>MessageError\<close> of the count check, not a read error.\<close>

theorem truncated_stream_counterexample:
  "truncated (1 # 0 # 0 # 0 # 2 # replicate 32 0xaa @ replicate 5 0xbb) 0 \<and>
   MsgGetHeaders_VVSDecode NewMsgGetHeaders
     (1 # 0 # 0 # 0 # 2 # replicate 32 0xaa @ replicate 5 0xbb) 0 () =
     \<lparr>err = Some ErrUnexpectedEOF,
      receiver = \<lparr>MsgGetHeaders.ProtocolVersion = 1,
        BlockLocatorHashes = [Some (to_Hash (replicate 32 0xaa))], HashStop = zero_Hash\<rparr>,
      unread = [], made = [2, 2]\<rparr> \<and>
   \<lparr>MsgGetHeaders.ProtocolVersion = 1,
     BlockLocatorHashes = [Some (to_Hash (replicate 32 0xaa))], HashStop = zero_Hash\<rparr> \<noteq>
     NewMsgGetHeaders \<and>
   truncated [1, 0, 0, 0, 0xfd, 0xff, 0xff] 0 \<and>
   err (MsgGetHeaders_VVSDecode NewMsgGetHeaders [1, 0, 0, 0, 0xfd, 0xff, 0xff] 0 ()) =
     Some (MessageError ''MsgGetHeaders.VVSDecode''
       ''too many block locator hashes for message [count 65535, max 500]'') \<and>
   \<not> StreamFailure (MessageError ''MsgGetHeaders.VVSDecode''
       ''too many block locator hashes for message [count 65535, max 500]'')"
proof -
  let ?r = "1 # 0 # 0 # 0 # 2 # replicate 32 0xaa @ replicate 5 (0xbb :: byte)"
  let ?r2 = "replicate 32 0xaa @ replicate 5 (0xbb :: byte)"
  have a: "ReadUint32 ?r = (Inr 1, 2 # ?r2)"
    by (simp add: ReadUint32_def ReadFull_def)
  have b: "ReadVarInt (2 # ?r2) 0 = (Inr 2, ?r2)"
    by (simp add: ReadVarInt_def ReadFull_def)
  have d: "declared ?r 0 = Some (1, 2, ?r2)"
    by (simp add: declared_def a b)
  have t: "truncated ?r 0"
    by (simp add: truncated_def d HashLength_def)
  have le: "unat (2 :: uint64) \<le> MaxBlockLocatorsPerMsg"
    by (simp add: MaxBlockLocatorsPerMsg_def)
  have first: "MsgGetHeaders_VVSDecode NewMsgGetHeaders ?r 0 () =
     \<lparr>err = Some ErrUnexpectedEOF,
      receiver = \<lparr>MsgGetHeaders.ProtocolVersion = 1,
        BlockLocatorHashes = [Some (to_Hash (replicate 32 0xaa))], HashStop = zero_Hash\<rparr>,
      unread = [], made = [2, 2]\<rparr>"
    unfolding MsgGetHeaders_VVSDecode_bounded [OF a b le]
    by (simp add: NewMsgGetHeaders_def)
  have differ: "\<lparr>MsgGetHeaders.ProtocolVersion = 1,
     BlockLocatorHashes = [Some (to_Hash (replicate 32 0xaa))], HashStop = zero_Hash\<rparr> \<noteq>
     NewMsgGetHeaders"
    by (simp add: NewMsgGetHeaders_def)
  let ?s = "[1, 0, 0, 0, 0xfd, 0xff, 0xff :: byte]"
  have a': "ReadUint32 ?s = (Inr 1, [0xfd, 0xff, 0xff])"
    by (simp add: ReadUint32_def ReadFull_def)
  have b': "ReadVarInt [0xfd, 0xff, 0xff] 0 = (Inr 65535, [])"
    by (simp add: ReadVarInt_def ReadFull_def)
  have d': "declared ?s 0 = Some (1, 65535, [])"
    by (simp add: declared_def a' b')
  have t': "truncated ?s 0"
    by (simp add: truncated_def d' HashLength_def)
  have over: "MaxBlockLocatorsPerMsg < unat (65535 :: uint64)"
    by (simp add: MaxBlockLocatorsPerMsg_def)
  have digits: "decimal 65535 = ''65535''" "decimal 500 = ''500''"
    by (simp_all add: decimal.simps)
  have second: "err (MsgGetHeaders_VVSDecode NewMsgGetHeaders ?s 0 ()) =
     Some (MessageError ''MsgGetHeaders.VVSDecode''
       ''too many block locator hashes for message [count 65535, max 500]'')"
    unfolding MsgGetHeaders_VVSDecode_too_many [OF a' b' over]
    by (simp add: messageError_def digits MaxBlockLocatorsPerMsg_def)
  from t first differ t' second show ?thesis by simp
qed




text \<open>
  \<^bold>\<open>C6.\<close> The invariant \<open>0 \<le> length BlockLocatorHashes \<le> 500\<close> holds of a message
  made by \<^verbatim>\<open>NewMsgGetHeaders\<close> or \<^verbatim>\<open>NewMsgGetBlocks\<close>, is kept by
  \<^verbatim>\<open>AddBlockLocatorHash\<close> whether the call returns an error or not, and holds of the
  receiver after a \<^verbatim>\<open>VVSDecode\<close> without error, whatever the receiver held before.
  This holds for both message types.
\<close>

theorem locator_bound_invariant:
  "MsgGetHeaders_bounded NewMsgGetHeaders \<and>
   (MsgGetHeaders_bounded gh \<longrightarrow>
      MsgGetHeaders_bounded (snd (MsgGetHeaders_AddBlockLocatorHash gh hash))) \<and>
   (err (MsgGetHeaders_VVSDecode gh0 r pver enc) = None \<longrightarrow>
      MsgGetHeaders_bounded (receiver (MsgGetHeaders_VVSDecode gh0 r pver enc))) \<and>
   (NewMsgGetBlocks common_ProtocolVersion hashStop = Inr made_gb \<longrightarrow>
      MsgGetBlocks_bounded made_gb) \<and>
   (MsgGetBlocks_bounded gb \<longrightarrow>
      MsgGetBlocks_bounded (snd (MsgGetBlocks_AddBlockLocatorHash gb hash))) \<and>
   (err (MsgGetBlocks_VVSDecode gb0 r pver enc) = None \<longrightarrow>
      MsgGetBlocks_bounded (receiver (MsgGetBlocks_VVSDecode gb0 r pver enc)))"
proof (intro conjI impI)
  show "MsgGetHeaders_bounded NewMsgGetHeaders"
    by (simp add: MsgGetHeaders_bounded_def NewMsgGetHeaders_def)
next
  assume "MsgGetHeaders_bounded gh"
  then show "MsgGetHeaders_bounded (snd (MsgGetHeaders_AddBlockLocatorHash gh hash))"
    by (simp add: MsgGetHeaders_bounded_def MsgGetHeaders_AddBlockLocatorHash_def)
next
  assume "err (MsgGetHeaders_VVSDecode gh0 r pver enc) = None"
  then obtain v and count :: uint64 and r2 where le: "unat count \<le> MaxBlockLocatorsPerMsg"
    and d: "\<forall>m. MsgGetHeaders_VVSDecode m r pver enc =
       \<lparr>err = None,
        receiver = m\<lparr>MsgGetHeaders.ProtocolVersion := v,
          MsgGetHeaders.BlockLocatorHashes := map Some (hashes_of (unat count) r2),
          MsgGetHeaders.HashStop := to_Hash (take 32 (drop (32 * unat count) r2))\<rparr>,
        unread = drop 32 (drop (32 * unat count) r2), made = [unat count, unat count]\<rparr>"
    by (rule MsgGetHeaders_VVSDecode_success) blast
  show "MsgGetHeaders_bounded (receiver (MsgGetHeaders_VVSDecode gh0 r pver enc))"
    using le by (simp add: d MsgGetHeaders_bounded_def)
next
  assume "NewMsgGetBlocks common_ProtocolVersion hashStop = Inr made_gb"
  then show "MsgGetBlocks_bounded made_gb"
    by (auto simp add: MsgGetBlocks_bounded_def NewMsgGetBlocks_def split: option.splits)
next
  assume "MsgGetBlocks_bounded gb"
  then show "MsgGetBlocks_bounded (snd (MsgGetBlocks_AddBlockLocatorHash gb hash))"
    by (simp add: MsgGetBlocks_bounded_def MsgGetBlocks_AddBlockLocatorHash_def)
next
  assume "err (MsgGetBlocks_VVSDecode gb0 r pver enc) = None"
  then obtain v and count :: uint64 and r2 where le: "unat count \<le> MaxBlockLocatorsPerMsg"
    and d: "\<forall>m. MsgGetBlocks_VVSDecode m r pver enc =
       \<lparr>err = None,
        receiver = m\<lparr>MsgGetBlocks.ProtocolVersion := v,
          MsgGetBlocks.BlockLocatorHashes := map Some (hashes_of (unat count) r2),
          MsgGetBlocks.HashStop := to_Hash (take 32 (drop (32 * unat count) r2))\<rparr>,
        unread = drop 32 (drop (32 * unat count) r2), made = [unat count, unat count]\<rparr>"
    by (rule MsgGetBlocks_VVSDecode_success) blast
  show "MsgGetBlocks_bounded (receiver (MsgGetBlocks_VVSDecode gb0 r pver enc))"
    using le by (simp add: d MsgGetBlocks_bounded_def)
qed

theorem locator_bound_invariant_witness:
  "MsgGetHeaders_bounded NewMsgGetHeaders \<and>
   MsgGetHeaders_bounded (snd (MsgGetHeaders_AddBlockLocatorHash NewMsgGetHeaders (Some zero_Hash))) \<and>
   MsgGetHeaders_bounded
     (NewMsgGetHeaders\<lparr>MsgGetHeaders.BlockLocatorHashes := replicate 500 (Some zero_Hash)\<rparr>) \<and>
   MsgGetHeaders_bounded (snd (MsgGetHeaders_AddBlockLocatorHash
     (NewMsgGetHeaders\<lparr>MsgGetHeaders.BlockLocatorHashes := replicate 500 (Some zero_Hash)\<rparr>)
     (Some zero_Hash))) \<and>
   err (MsgGetHeaders_VVSDecode
     \<lparr>MsgGetHeaders.ProtocolVersion = 7, BlockLocatorHashes = [Some (to_Hash (replicate 32 9))],
      HashStop = to_Hash (replicate 32 5)\<rparr> (replicate 37 0) 0 ()) = None \<and>
   MsgGetHeaders_bounded (receiver (MsgGetHeaders_VVSDecode
     \<lparr>MsgGetHeaders.ProtocolVersion = 7, BlockLocatorHashes = [Some (to_Hash (replicate 32 9))],
      HashStop = to_Hash (replicate 32 5)\<rparr> (replicate 37 0) 0 ())) \<and>
   NewMsgGetBlocks 1 (Some zero_Hash) =
     Inr \<lparr>MsgGetBlocks.ProtocolVersion = 1, BlockLocatorHashes = [], HashStop = zero_Hash\<rparr> \<and>
   MsgGetBlocks_bounded
     \<lparr>MsgGetBlocks.ProtocolVersion = 1, BlockLocatorHashes = [], HashStop = zero_Hash\<rparr> \<and>
   MsgGetBlocks_bounded (snd (MsgGetBlocks_AddBlockLocatorHash
     \<lparr>MsgGetBlocks.ProtocolVersion = 1, BlockLocatorHashes = [], HashStop = zero_Hash\<rparr>
     (Some zero_Hash))) \<and>
   err (MsgGetBlocks_VVSDecode
     \<lparr>MsgGetBlocks.ProtocolVersion = 1, BlockLocatorHashes = [], HashStop = zero_Hash\<rparr>
     (replicate 37 0) 0 ()) = None \<and>
   MsgGetBlocks_bounded (receiver (MsgGetBlocks_VVSDecode
     \<lparr>MsgGetBlocks.ProtocolVersion = 1, BlockLocatorHashes = [], HashStop = zero_Hash\<rparr>
     (replicate 37 0) 0 ()))"
proof -
  let ?full = "NewMsgGetHeaders\<lparr>MsgGetHeaders.BlockLocatorHashes := replicate 500 (Some zero_Hash)\<rparr>"
  let ?gh0 = "\<lparr>MsgGetHeaders.ProtocolVersion = 7,
      BlockLocatorHashes = [Some (to_Hash (replicate 32 9))],
      HashStop = to_Hash (replicate 32 5)\<rparr>"
  let ?gb = "\<lparr>MsgGetBlocks.ProtocolVersion = 1, BlockLocatorHashes = [], HashStop = zero_Hash\<rparr>"
  have a: "MsgGetHeaders_bounded ?full"
    by (simp add: MsgGetHeaders_bounded_def MaxBlockLocatorsPerMsg_def)
  have b: "err (MsgGetHeaders_VVSDecode ?gh0 (replicate 37 0) 0 ()) = None"
    by (simp add: MsgGetHeaders_decode_zeros)
  have c: "NewMsgGetBlocks 1 (Some zero_Hash) = Inr ?gb"
    by (simp add: NewMsgGetBlocks_def)
  have d: "err (MsgGetBlocks_VVSDecode ?gb (replicate 37 0) 0 ()) = None"
    by (simp add: MsgGetBlocks_decode_zeros)
  note t1 = locator_bound_invariant [of NewMsgGetHeaders "Some zero_Hash" ?gh0
      "replicate 37 0" 0 "()" 1 "Some zero_Hash" ?gb ?gb ?gb]
  note t2 = locator_bound_invariant [of ?full "Some zero_Hash" ?gh0
      "replicate 37 0" 0 "()" 1 "Some zero_Hash" ?gb ?gb ?gb]
  from t1 c have e: "MsgGetBlocks_bounded ?gb" by blast
  from a b c d e t1 t2 show ?thesis by blast
qed

text \<open>
  \<^bold>\<open>C7.\<close> A getheaders message without locators and with the all-zero stop hash is
  encoded without error into exactly \<open>4 + 1 + 0 + 32 = 37\<close> bytes: the four bytes of the
  version, the byte \<^verbatim>\<open>0x00\<close> for the count, and 32 zero bytes. Decoding these bytes gives
  the same message back.
\<close>

theorem empty_message_37_bytes:
  assumes "MsgGetHeaders.BlockLocatorHashes msg = []"
    and "MsgGetHeaders.HashStop msg = zero_Hash"
  shows "MsgGetHeaders_VVSEncode msg Buffer pver enc =
      (None, \<lparr>written = LittleEndian_bytes 4 (MsgGetHeaders.ProtocolVersion msg) @
                [0] @ replicate 32 0, room = None\<rparr>) \<and>
    length (LittleEndian_bytes 4 (MsgGetHeaders.ProtocolVersion msg) @
            [0 :: byte] @ replicate 32 0) = 37 \<and>
    MsgGetHeaders_VVSDecode m0
      (LittleEndian_bytes 4 (MsgGetHeaders.ProtocolVersion msg) @ [0] @ replicate 32 0)
      pver' enc' =
      \<lparr>err = None, receiver = msg, unread = [], made = [0, 0]\<rparr>"
proof -
  have enc: "MsgGetHeaders_VVSEncode msg Buffer pver enc =
     (None, Buffer\<lparr>written := written Buffer @
        LittleEndian_bytes 4 (MsgGetHeaders.ProtocolVersion msg) @
        VarInt_bytes (of_nat (length ([] :: Hash list))) @ concat (map Rep_Hash []) @
        Rep_Hash (MsgGetHeaders.HashStop msg)\<rparr>)"
    by (rule MsgGetHeaders_VVSEncode_Buffer) (simp_all add: assms Buffer_def)
  have same: "m0\<lparr>MsgGetHeaders.ProtocolVersion := MsgGetHeaders.ProtocolVersion msg,
        MsgGetHeaders.BlockLocatorHashes := [],
        MsgGetHeaders.HashStop := zero_Hash\<rparr> = msg"
    by (rule MsgGetHeaders_eqI) (simp_all add: assms)
  have "length ([] :: Hash list) \<le> MaxBlockLocatorsPerMsg" by simp
  from MsgGetHeaders_decode_encoded [OF this, of m0 "MsgGetHeaders.ProtocolVersion msg"
      zero_Hash pver' enc']
  have dec: "MsgGetHeaders_VVSDecode m0
     (LittleEndian_bytes 4 (MsgGetHeaders.ProtocolVersion msg) @ [0] @ replicate 32 0)
     pver' enc' = \<lparr>err = None, receiver = msg, unread = [], made = [0, 0]\<rparr>"
    by (simp add: same VarInt_bytes_0)
  have out: "MsgGetHeaders_VVSEncode msg Buffer pver enc =
      (None, \<lparr>written = LittleEndian_bytes 4 (MsgGetHeaders.ProtocolVersion msg) @
                [0] @ replicate 32 0, room = None\<rparr>)"
    unfolding enc by (simp add: Buffer_def VarInt_bytes_0 assms(2))
  show ?thesis
    unfolding out dec by simp
qed

theorem empty_message_37_bytes_witness:
  "MsgGetHeaders.BlockLocatorHashes NewMsgGetHeaders = [] \<and>
   MsgGetHeaders.HashStop NewMsgGetHeaders = zero_Hash \<and>
   MsgGetHeaders_VVSEncode NewMsgGetHeaders Buffer 0 () =
     (None, \<lparr>written = replicate 37 0, room = None\<rparr>) \<and>
   MsgGetHeaders_VVSDecode
     \<lparr>MsgGetHeaders.ProtocolVersion = 7, BlockLocatorHashes = [Some (to_Hash (replicate 32 9))],
      HashStop = to_Hash (replicate 32 5)\<rparr> (replicate 37 0) 0 () =
     \<lparr>err = None, receiver = NewMsgGetHeaders, unread = [], made = [0, 0]\<rparr>"
proof -
  have bytes: "LittleEndian_bytes 4 (MsgGetHeaders.ProtocolVersion NewMsgGetHeaders) @
      [0] @ replicate 32 0 = replicate 37 0"
    by (simp add: NewMsgGetHeaders_def LittleEndian_bytes_4 numeral_eq_Suc)
  have a: "MsgGetHeaders.BlockLocatorHashes NewMsgGetHeaders = []"
    and b: "MsgGetHeaders.HashStop NewMsgGetHeaders = zero_Hash"
    by (simp_all add: NewMsgGetHeaders_def)
  show ?thesis
    using empty_message_37_bytes [OF a b, of 0 "()"
      "\<lparr>MsgGetHeaders.ProtocolVersion = 7,
        BlockLocatorHashes = [Some (to_Hash (replicate 32 9))],
        HashStop = to_Hash (replicate 32 5)\<rparr>" 0 "()"]
    unfolding bytes using a b by simp
qed

text \<open>
  \<^bold>\<open>C8.\<close> The two message types have the same wire format. For a getheaders and a
  getblocks message with equal fields, the two encoders leave the same writer behind
  (the same bytes), and one returns no error exactly when the other does. The two
  decoders, on the same stream, return no error together or fail together, read the
  same part of the stream, and after a decoding without error the two receivers are
  equal field by field; receivers that were equal field by field before are so after,
  whatever the outcome. The command strings of the two types differ.
\<close>

theorem both_types_same_wire_format:
  "(same_fields gh gb \<longrightarrow>
      snd (MsgGetHeaders_VVSEncode gh w pver enc) = snd (MsgGetBlocks_VVSEncode gb w pver enc) \<and>
      (fst (MsgGetHeaders_VVSEncode gh w pver enc) = None \<longleftrightarrow>
       fst (MsgGetBlocks_VVSEncode gb w pver enc) = None)) \<and>
   (err (MsgGetHeaders_VVSDecode gh0 r pver enc) = None \<longleftrightarrow>
    err (MsgGetBlocks_VVSDecode gb0 r pver enc) = None) \<and>
   unread (MsgGetHeaders_VVSDecode gh0 r pver enc) =
     unread (MsgGetBlocks_VVSDecode gb0 r pver enc) \<and>
   (err (MsgGetHeaders_VVSDecode gh0 r pver enc) = None \<longrightarrow>
      same_fields (receiver (MsgGetHeaders_VVSDecode gh0 r pver enc))
        (receiver (MsgGetBlocks_VVSDecode gb0 r pver enc))) \<and>
   (same_fields gh0 gb0 \<longrightarrow>
      same_fields (receiver (MsgGetHeaders_VVSDecode gh0 r pver enc))
        (receiver (MsgGetBlocks_VVSDecode gb0 r pver enc))) \<and>
   MsgGetHeaders_Command gh \<noteq> MsgGetBlocks_Command gb"
proof -
  have command: "MsgGetHeaders_Command gh \<noteq> MsgGetBlocks_Command gb"
    by (simp add: MsgGetHeaders_Command_def MsgGetBlocks_Command_def CmdGetHeaders_def
        CmdGetBlocks_def)
  have encode: "snd (MsgGetHeaders_VVSEncode gh w pver enc) =
        snd (MsgGetBlocks_VVSEncode gb w pver enc) \<and>
      (fst (MsgGetHeaders_VVSEncode gh w pver enc) = None \<longleftrightarrow>
       fst (MsgGetBlocks_VVSEncode gb w pver enc) = None)"
    if "same_fields gh gb"
    using that
    by (simp add: same_fields_def MsgGetHeaders_VVSEncode_def MsgGetBlocks_VVSEncode_def
        write_hashes_same Let_def split: prod.split option.split)
  have decode: "(err (MsgGetHeaders_VVSDecode gh0 r pver enc) = None \<longleftrightarrow>
      err (MsgGetBlocks_VVSDecode gb0 r pver enc) = None) \<and>
    unread (MsgGetHeaders_VVSDecode gh0 r pver enc) =
      unread (MsgGetBlocks_VVSDecode gb0 r pver enc) \<and>
    (err (MsgGetHeaders_VVSDecode gh0 r pver enc) = None \<or> same_fields gh0 gb0 \<longrightarrow>
      same_fields (receiver (MsgGetHeaders_VVSDecode gh0 r pver enc))
        (receiver (MsgGetBlocks_VVSDecode gb0 r pver enc)))"
  proof (cases r pver rule: declared_cases)
    case (version e r1)
    then show ?thesis
      by (simp add: MsgGetHeaders_VVSDecode_version_fails MsgGetBlocks_VVSDecode_version_fails)
  next
    case (count v r1 e r2)
    then show ?thesis
      by (simp add: MsgGetHeaders_VVSDecode_count_fails MsgGetBlocks_VVSDecode_count_fails
          same_fields_def)
  next
    case (both v r1 count r2)
    show ?thesis
    proof (cases "unat count \<le> MaxBlockLocatorsPerMsg")
      case False
      then have "MaxBlockLocatorsPerMsg < unat count" by simp
      then show ?thesis
        by (simp add: MsgGetHeaders_VVSDecode_too_many [OF both(1,2)]
            MsgGetBlocks_VVSDecode_too_many [OF both(1,2)] same_fields_def)
    next
      case True
      show ?thesis
        unfolding MsgGetHeaders_VVSDecode_bounded [OF both(1,2) True]
          MsgGetBlocks_VVSDecode_bounded [OF both(1,2) True]
        by (simp add: same_fields_def ReadNBytes_def ReadFull_def HashLength_def)
    qed
  qed
  from encode decode command show ?thesis by blast
qed

theorem both_types_same_wire_format_witness:
  "same_fields NewMsgGetHeaders
     \<lparr>MsgGetBlocks.ProtocolVersion = 0, BlockLocatorHashes = [], HashStop = zero_Hash\<rparr> \<and>
   snd (MsgGetHeaders_VVSEncode NewMsgGetHeaders Buffer 0 ()) =
     snd (MsgGetBlocks_VVSEncode
       \<lparr>MsgGetBlocks.ProtocolVersion = 0, BlockLocatorHashes = [], HashStop = zero_Hash\<rparr>
       Buffer 0 ()) \<and>
   err (MsgGetHeaders_VVSDecode NewMsgGetHeaders (replicate 37 0) 0 ()) = None \<and>
   err (MsgGetBlocks_VVSDecode
     \<lparr>MsgGetBlocks.ProtocolVersion = 0, BlockLocatorHashes = [], HashStop = zero_Hash\<rparr>
     (replicate 37 0) 0 ()) = None \<and>
   same_fields (receiver (MsgGetHeaders_VVSDecode NewMsgGetHeaders (replicate 37 0) 0 ()))
     (receiver (MsgGetBlocks_VVSDecode
       \<lparr>MsgGetBlocks.ProtocolVersion = 0, BlockLocatorHashes = [], HashStop = zero_Hash\<rparr>
       (replicate 37 0) 0 ()))"
proof -
  have s: "same_fields NewMsgGetHeaders
     \<lparr>MsgGetBlocks.ProtocolVersion = 0, BlockLocatorHashes = [], HashStop = zero_Hash\<rparr>"
    by (simp add: same_fields_def NewMsgGetHeaders_def)
  have d: "err (MsgGetHeaders_VVSDecode NewMsgGetHeaders (replicate 37 0) 0 ()) = None"
    by (simp add: MsgGetHeaders_decode_zeros)
  from s d both_types_same_wire_format [of NewMsgGetHeaders
      "\<lparr>MsgGetBlocks.ProtocolVersion = 0, BlockLocatorHashes = [], HashStop = zero_Hash\<rparr>"
      Buffer 0 "()" NewMsgGetHeaders "replicate 37 0"
      "\<lparr>MsgGetBlocks.ProtocolVersion = 0, BlockLocatorHashes = [], HashStop = zero_Hash\<rparr>"]
  show ?thesis by blast
qed

text \<open>
  \<^bold>\<open>C9.\<close> In the loop of \<^verbatim>\<open>VVSDecode\<close>, entered with a count of at most 500, a
  buffer of that many slots and a receiver without locators, the call of
  \<^verbatim>\<open>AddBlockLocatorHash\<close> never returns its error: the loop ends without error or with
  the read error of a stream that ended early, and it does not panic. So no call of
  \<^verbatim>\<open>VVSDecode\<close>, on any stream, returns the error of \<^verbatim>\<open>AddBlockLocatorHash\<close>. This
  holds for both message types.
\<close>

theorem add_in_decode_loop_never_fails:
  assumes "count \<le> MaxBlockLocatorsPerMsg" and "length locatorHashes = count"
    and "MsgGetHeaders.BlockLocatorHashes gh = []"
    and "MsgGetBlocks.BlockLocatorHashes gb = []"
  shows "fst (MsgGetHeaders_decode_hashes 0 count r locatorHashes gh) \<in>
      {None, Some EOF, Some ErrUnexpectedEOF} \<and>
    fst (MsgGetBlocks_decode_hashes 0 count r locatorHashes gb) \<in>
      {None, Some EOF, Some ErrUnexpectedEOF} \<and>
    (\<forall>desc. fst (MsgGetHeaders_decode_hashes 0 count r locatorHashes gh) \<noteq>
       Some (messageError ''MsgGetHeaders.AddBlockLocatorHash'' desc)) \<and>
    (\<forall>desc. fst (MsgGetBlocks_decode_hashes 0 count r locatorHashes gb) \<noteq>
       Some (messageError ''MsgGetBlocks.AddBlockLocatorHash'' desc)) \<and>
    (\<forall>desc. err (MsgGetHeaders_VVSDecode gh' r' pver enc) \<noteq>
       Some (messageError ''MsgGetHeaders.AddBlockLocatorHash'' desc)) \<and>
    (\<forall>desc. err (MsgGetBlocks_VVSDecode gb' r' pver enc) \<noteq>
       Some (messageError ''MsgGetBlocks.AddBlockLocatorHash'' desc))"
proof -
  have a: "fst (MsgGetHeaders_decode_hashes 0 count r locatorHashes gh) \<in>
      {None, Some EOF, Some ErrUnexpectedEOF}"
    using assms by (subst MsgGetHeaders_decode_hashes_run) simp_all
  have b: "fst (MsgGetBlocks_decode_hashes 0 count r locatorHashes gb) \<in>
      {None, Some EOF, Some ErrUnexpectedEOF}"
    using assms by (subst MsgGetBlocks_decode_hashes_run) simp_all
  have c: "err (MsgGetHeaders_VVSDecode gh' r' pver enc) \<noteq>
       Some (messageError ''MsgGetHeaders.AddBlockLocatorHash'' desc)" for desc
    using MsgGetHeaders_VVSDecode_errors [of gh' r' pver enc]
    by (auto simp add: messageError_def)
  have d: "err (MsgGetBlocks_VVSDecode gb' r' pver enc) \<noteq>
       Some (messageError ''MsgGetBlocks.AddBlockLocatorHash'' desc)" for desc
    using MsgGetBlocks_VVSDecode_errors [of gb' r' pver enc]
    by (auto simp add: messageError_def)
  from a b c d show ?thesis
    by (auto simp add: messageError_def)
qed

theorem add_in_decode_loop_never_fails_witness:
  "(2 :: nat) \<le> MaxBlockLocatorsPerMsg \<and> length (replicate 2 zero_Hash) = 2 \<and>
   MsgGetHeaders.BlockLocatorHashes NewMsgGetHeaders = [] \<and>
   MsgGetBlocks.BlockLocatorHashes
     \<lparr>MsgGetBlocks.ProtocolVersion = 1, BlockLocatorHashes = [], HashStop = zero_Hash\<rparr> = [] \<and>
   fst (MsgGetHeaders_decode_hashes 0 2 (replicate 40 1) (replicate 2 zero_Hash) NewMsgGetHeaders) \<in>
     {None, Some EOF, Some ErrUnexpectedEOF} \<and>
   fst (MsgGetBlocks_decode_hashes 0 2 (replicate 40 1) (replicate 2 zero_Hash)
     \<lparr>MsgGetBlocks.ProtocolVersion = 1, BlockLocatorHashes = [], HashStop = zero_Hash\<rparr>) \<in>
     {None, Some EOF, Some ErrUnexpectedEOF} \<and>
   (\<forall>desc. fst (MsgGetHeaders_decode_hashes 0 2 (replicate 40 1) (replicate 2 zero_Hash)
       NewMsgGetHeaders) \<noteq> Some (messageError ''MsgGetHeaders.AddBlockLocatorHash'' desc)) \<and>
   (\<forall>desc. fst (MsgGetBlocks_decode_hashes 0 2 (replicate 40 1) (replicate 2 zero_Hash)
       \<lparr>MsgGetBlocks.ProtocolVersion = 1, BlockLocatorHashes = [], HashStop = zero_Hash\<rparr>) \<noteq>
       Some (messageError ''MsgGetBlocks.AddBlockLocatorHash'' desc))"
proof -
  have a: "(2 :: nat) \<le> MaxBlockLocatorsPerMsg" by (simp add: MaxBlockLocatorsPerMsg_def)
  have b: "length (replicate 2 zero_Hash) = 2" by simp
  have c: "MsgGetHeaders.BlockLocatorHashes NewMsgGetHeaders = []"
    by (simp add: NewMsgGetHeaders_def)
  have d: "MsgGetBlocks.BlockLocatorHashes
     \<lparr>MsgGetBlocks.ProtocolVersion = 1, BlockLocatorHashes = [], HashStop = zero_Hash\<rparr> = []" by simp
  note t = add_in_decode_loop_never_fails [OF a b c d, of "replicate 40 1" NewMsgGetHeaders
    "replicate 37 0" 0 "()"]
  from a b c d t show ?thesis by simp
qed

text \<open>
  \<^bold>\<open>C10.\<close> A decoding without error does not depend on what the receiver held: when
  \<^verbatim>\<open>VVSDecode\<close> of a stream into one receiver returns no error, decoding the same stream
  into any other receiver returns no error either and leaves a receiver equal in every
  field. This holds for both message types.
\<close>

theorem decode_ignores_receiver:
  "(err (MsgGetHeaders_VVSDecode gh1 r pver enc) = None \<longrightarrow>
      MsgGetHeaders_VVSDecode gh2 r pver enc = MsgGetHeaders_VVSDecode gh1 r pver enc) \<and>
   (err (MsgGetBlocks_VVSDecode gb1 r pver enc) = None \<longrightarrow>
      MsgGetBlocks_VVSDecode gb2 r pver enc = MsgGetBlocks_VVSDecode gb1 r pver enc)"
proof (intro conjI impI)
  assume "err (MsgGetHeaders_VVSDecode gh1 r pver enc) = None"
  then obtain v and count :: uint64 and r2 where d: "\<forall>m. MsgGetHeaders_VVSDecode m r pver enc =
       \<lparr>err = None,
        receiver = m\<lparr>MsgGetHeaders.ProtocolVersion := v,
          MsgGetHeaders.BlockLocatorHashes := map Some (hashes_of (unat count) r2),
          MsgGetHeaders.HashStop := to_Hash (take 32 (drop (32 * unat count) r2))\<rparr>,
        unread = drop 32 (drop (32 * unat count) r2), made = [unat count, unat count]\<rparr>"
    by (rule MsgGetHeaders_VVSDecode_success) blast
  show "MsgGetHeaders_VVSDecode gh2 r pver enc = MsgGetHeaders_VVSDecode gh1 r pver enc"
    by (simp add: d MsgGetHeaders_eqI)
next
  assume "err (MsgGetBlocks_VVSDecode gb1 r pver enc) = None"
  then obtain v and count :: uint64 and r2 where d: "\<forall>m. MsgGetBlocks_VVSDecode m r pver enc =
       \<lparr>err = None,
        receiver = m\<lparr>MsgGetBlocks.ProtocolVersion := v,
          MsgGetBlocks.BlockLocatorHashes := map Some (hashes_of (unat count) r2),
          MsgGetBlocks.HashStop := to_Hash (take 32 (drop (32 * unat count) r2))\<rparr>,
        unread = drop 32 (drop (32 * unat count) r2), made = [unat count, unat count]\<rparr>"
    by (rule MsgGetBlocks_VVSDecode_success) blast
  show "MsgGetBlocks_VVSDecode gb2 r pver enc = MsgGetBlocks_VVSDecode gb1 r pver enc"
    by (simp add: d MsgGetBlocks_eqI)
qed

theorem decode_ignores_receiver_witness:
  "err (MsgGetHeaders_VVSDecode NewMsgGetHeaders (replicate 37 0) 0 ()) = None \<and>
   MsgGetHeaders_VVSDecode
     \<lparr>MsgGetHeaders.ProtocolVersion = 7, BlockLocatorHashes = [Some (to_Hash (replicate 32 9))],
       HashStop = to_Hash (replicate 32 5)\<rparr> (replicate 37 0) 0 () =
   MsgGetHeaders_VVSDecode NewMsgGetHeaders (replicate 37 0) 0 () \<and>
   err (MsgGetBlocks_VVSDecode
     \<lparr>MsgGetBlocks.ProtocolVersion = 1, BlockLocatorHashes = [], HashStop = zero_Hash\<rparr> (replicate 37 0) 0 ()) = None \<and>
   MsgGetBlocks_VVSDecode
     \<lparr>MsgGetBlocks.ProtocolVersion = 7, BlockLocatorHashes = [Some (to_Hash (replicate 32 9))],
       HashStop = to_Hash (replicate 32 5)\<rparr> (replicate 37 0) 0 () =
   MsgGetBlocks_VVSDecode
     \<lparr>MsgGetBlocks.ProtocolVersion = 1, BlockLocatorHashes = [], HashStop = zero_Hash\<rparr> (replicate 37 0) 0 ()"
proof -
  have a: "err (MsgGetHeaders_VVSDecode NewMsgGetHeaders (replicate 37 0) 0 ()) = None"
    by (simp add: MsgGetHeaders_decode_zeros)
  have b: "err (MsgGetBlocks_VVSDecode
     \<lparr>MsgGetBlocks.ProtocolVersion = 1, BlockLocatorHashes = [], HashStop = zero_Hash\<rparr> (replicate 37 0) 0 ()) = None"
    by (simp add: MsgGetBlocks_decode_zeros)
  from a b decode_ignores_receiver [of NewMsgGetHeaders "replicate 37 0" 0 "()"
     "\<lparr>MsgGetHeaders.ProtocolVersion = 7, BlockLocatorHashes = [Some (to_Hash (replicate 32 9))],
       HashStop = to_Hash (replicate 32 5)\<rparr>"
     "\<lparr>MsgGetBlocks.ProtocolVersion = 1, BlockLocatorHashes = [], HashStop = zero_Hash\<rparr>"
     "\<lparr>MsgGetBlocks.ProtocolVersion = 7, BlockLocatorHashes = [Some (to_Hash (replicate 32 9))],
       HashStop = to_Hash (replicate 32 5)\<rparr>"]
  show ?thesis by blast
qed


end
